theory Spec2Isabelle
  imports Complex_Main "HOL-Library.Word" "HOL-Library.Sublist"
begin

unbundle bit_operations_syntax

section \<open>Text cleaning of the speech synthesis client\<close>

text \<open>
  \<^verbatim>\<open>generateVoiceover\<close> sanitises its text with four regular-expression steps and a
  \<^verbatim>\<open>trim\<close>:
  \<^verbatim>\<open>
  let cleanText = text
    .replace(/\[[\s\S]*?\]/g, '')
    .replace(/\([\s\S]*?\)/g, '')
    .replace(/[*_~`]/g, '')
    .trim();
  cleanText = cleanText.replace(/\s+/g, ' ');
  \<close>
  Strings are lists of code units; the model keeps the code units below 256, so the
  white space of \<^verbatim>\<open>\s\<close> and of \<^verbatim>\<open>trim\<close> (the same set in ECMAScript) is tab, line feed,
  vertical tab, form feed, carriage return, space and no-break space.
\<close>

definition isWhiteSpace :: "char \<Rightarrow> bool" where
  "isWhiteSpace c = (of_char c \<in> {9, 10, 11, 12, 13, 32, 160 :: nat})"

text \<open>
  A global replace of the lazy pattern \<^verbatim>\<open>l[\s\S]*?r\<close> by the empty string: scanning from the
  left, an opening delimiter that has a closing delimiter somewhere after it is removed together
  with everything up to the first such closing delimiter, and the scan goes on behind it; an
  opening delimiter with no closing delimiter behind it stays.
\<close>

function stripSpan :: "char \<Rightarrow> char \<Rightarrow> string \<Rightarrow> string" where
  "stripSpan l r [] = []"
| "stripSpan l r (c # cs) =
     (if c = l then
        (case dropWhile (\<lambda>x. x \<noteq> r) cs of
           [] \<Rightarrow> c # stripSpan l r cs
         | _ # rest \<Rightarrow> stripSpan l r rest)
      else c # stripSpan l r cs)"
  by pat_completeness auto
termination
proof (relation "measure (\<lambda>(l, r, s). length s)")
  fix l r :: char and c :: char and cs :: string and x :: char and rest :: string
  assume "dropWhile (\<lambda>x. x \<noteq> r) cs = x # rest"
  then have "length (x # rest) \<le> length cs"
    by (metis length_dropWhile_le)
  then show "((l, r, rest), (l, r, c # cs)) \<in> measure (\<lambda>(l, r, s). length s)"
    by simp
qed auto

definition isMarkdown :: "char \<Rightarrow> bool" where
  "isMarkdown c = (c = CHR ''*'' \<or> c = CHR ''_'' \<or> c = CHR ''~'' \<or> c = CHR 0x60)"

definition removeMarkdown :: "string \<Rightarrow> string" where
  "removeMarkdown s = filter (\<lambda>c. \<not> isMarkdown c) s"

text \<open>\<^verbatim>\<open>String.prototype.trim\<close>: white space is dropped from both ends.\<close>

primrec trimEnd :: "string \<Rightarrow> string" where
  "trimEnd [] = []"
| "trimEnd (c # cs) = (if list_all isWhiteSpace (c # cs) then [] else c # trimEnd cs)"

definition trimStart :: "string \<Rightarrow> string" where
  "trimStart s = dropWhile isWhiteSpace s"

definition trim :: "string \<Rightarrow> string" where
  "trim s = trimEnd (trimStart s)"

text \<open>\<^verbatim>\<open>replace(/\s+/g, ' ')\<close>: every maximal run of white space becomes one space.\<close>

function collapseSpaces :: "string \<Rightarrow> string" where
  "collapseSpaces [] = []"
| "collapseSpaces (c # cs) =
     (if isWhiteSpace c then CHR '' '' # collapseSpaces (dropWhile isWhiteSpace cs)
      else c # collapseSpaces cs)"
  by pat_completeness auto
termination
  by (relation "measure length") (auto simp: less_Suc_eq_le length_dropWhile_le)

definition cleanText :: "string \<Rightarrow> string" where
  "cleanText text =
     collapseSpaces (trim (removeMarkdown
       (stripSpan CHR ''('' CHR '')'' (stripSpan CHR ''['' CHR '']'' text))))"

section \<open>Errors\<close>

text \<open>
  A thrown value is a JavaScript error object: its \<^verbatim>\<open>name\<close>, its \<^verbatim>\<open>message\<close> and its optional
  \<^verbatim>\<open>cause\<close>. The source only ever builds plain \<^verbatim>\<open>new Error(message)\<close> objects; the typed-array
  constructor raises a \<^verbatim>\<open>RangeError\<close> and \<^verbatim>\<open>createBuffer\<close> a \<^verbatim>\<open>NotSupportedError\<close>, whose
  messages are implementation-defined and left empty here.
\<close>

datatype jserror = JSError (errName: string) (errMessage: string) (errCause: "jserror option")

definition Error :: "string \<Rightarrow> jserror" where
  "Error msg = JSError ''Error'' msg None"

definition RangeError :: jserror where
  "RangeError = JSError ''RangeError'' [] None"

definition NotSupportedError :: jserror where
  "NotSupportedError = JSError ''NotSupportedError'' [] None"

section \<open>Audio buffers and the PCM decoder\<close>

text \<open>
  Samples are finite binary floating-point numbers and are modelled as rationals. The
  arithmetic the claims depend on is exact in the source: a 32-bit float times 32767 or 32768
  needs at most 39 significant bits and is computed in double precision, and a 16-bit integer
  divided by 32768 is a 32-bit float.
\<close>

type_synonym byte = "8 word"

record AudioBuffer =
  channelData :: "rat list list"
  sampleRate :: int

definition numberOfChannels :: "AudioBuffer \<Rightarrow> nat" where
  "numberOfChannels b = length (channelData b)"

definition bufferLength :: "AudioBuffer \<Rightarrow> nat" where
  "bufferLength b = (case channelData b of [] \<Rightarrow> 0 | c # _ \<Rightarrow> length c)"

definition duration :: "AudioBuffer \<Rightarrow> rat" where
  "duration b = of_nat (bufferLength b) / of_int (sampleRate b)"

text \<open>
  What the code takes from its platform: the environment's API key, the base64 decoder
  \<^verbatim>\<open>atob\<close>, and the nominal ranges of \<^verbatim>\<open>createBuffer\<close>.
\<close>

record platform =
  apiKey :: "string option"
  atob :: "string \<Rightarrow> jserror + string"
  maxChannels :: nat
  minSampleRate :: int
  maxSampleRate :: int

text \<open>
  \<^verbatim>\<open>BaseAudioContext.createBuffer\<close>: a zero-filled buffer, or a \<^verbatim>\<open>NotSupportedError\<close> when the
  channel count is not between 1 and the platform's maximum, the length is zero, or the sample
  rate is outside the supported range.
\<close>

definition createBuffer :: "platform \<Rightarrow> int \<Rightarrow> nat \<Rightarrow> int \<Rightarrow> jserror + AudioBuffer" where
  "createBuffer pf numChannels len rate =
     (if numChannels < 1 \<or> int (maxChannels pf) < numChannels \<or> len = 0
         \<or> rate < minSampleRate pf \<or> maxSampleRate pf < rate
      then Inl NotSupportedError
      else Inr \<lparr>channelData = replicate (nat numChannels) (replicate len 0), sampleRate = rate\<rparr>)"

text \<open>
  A buffer the platform can hand out: at least one channel, all channels of one non-zero
  length, within the nominal ranges.
\<close>

definition wellFormed :: "platform \<Rightarrow> AudioBuffer \<Rightarrow> bool" where
  "wellFormed pf b =
     (1 \<le> numberOfChannels b \<and> numberOfChannels b \<le> maxChannels pf
      \<and> 1 \<le> bufferLength b
      \<and> list_all (\<lambda>c. length c = bufferLength b) (channelData b)
      \<and> minSampleRate pf \<le> sampleRate b \<and> sampleRate b \<le> maxSampleRate pf)"

text \<open>
  \<^verbatim>\<open>function decode(base64)\<close>: \<^verbatim>\<open>atob\<close>, then the code unit of every character of the binary
  string as a byte.
\<close>

definition decode :: "platform \<Rightarrow> string \<Rightarrow> jserror + byte list" where
  "decode pf base64 =
     (case atob pf base64 of
        Inl e \<Rightarrow> Inl e
      | Inr binaryString \<Rightarrow> Inr (map of_char binaryString))"

text \<open>
  \<^verbatim>\<open>new Int16Array(data.buffer)\<close>: a \<^verbatim>\<open>RangeError\<close> when the byte length is odd, else the view
  of the bytes as signed 16-bit integers in the byte order of the platform, which is taken to
  be little-endian.
\<close>

definition int16 :: "byte \<Rightarrow> byte \<Rightarrow> 16 word" where
  "int16 lo hi = ucast lo OR push_bit 8 (ucast hi)"

fun int16View :: "byte list \<Rightarrow> 16 word list" where
  "int16View (lo # hi # rest) = int16 lo hi # int16View rest"
| "int16View _ = []"

definition Int16Array :: "byte list \<Rightarrow> jserror + 16 word list" where
  "Int16Array bytes = (if odd (length bytes) then Inl RangeError else Inr (int16View bytes))"

text \<open>
  \<^verbatim>\<open>
  const dataInt16 = new Int16Array(data.buffer);
  const frameCount = dataInt16.length / numChannels;
  const buffer = ctx.createBuffer(numChannels, frameCount, sampleRate);
  for (let channel = 0; channel < numChannels; channel++) {
    const channelData = buffer.getChannelData(channel);
    for (let i = 0; i < frameCount; i++)
      channelData[i] = dataInt16[i * numChannels + channel] / 32768.0;
  }
  \<close>
  The quotient \<^verbatim>\<open>frameCount\<close> may have a fraction; \<^verbatim>\<open>createBuffer\<close> truncates it, and the
  writes of the loop beyond the buffer's length are ignored by the typed array. With a channel
  count below 1 \<^verbatim>\<open>createBuffer\<close> raises whatever the length.
\<close>

definition decodeAudioData ::
  "platform \<Rightarrow> byte list \<Rightarrow> int \<Rightarrow> int \<Rightarrow> jserror + AudioBuffer" where
  "decodeAudioData pf bytes rate numChannels =
     (case Int16Array bytes of
        Inl e \<Rightarrow> Inl e
      | Inr dataInt16 \<Rightarrow>
          (let frameCount = (if numChannels < 1 then 0
                             else length dataInt16 div nat numChannels)
           in case createBuffer pf numChannels frameCount rate of
                Inl e \<Rightarrow> Inl e
              | Inr buffer \<Rightarrow>
                  Inr (buffer\<lparr>channelData :=
                    map (\<lambda>channel.
                      map (\<lambda>i. of_int (sint (dataInt16 ! (i * nat numChannels + channel))) / 32768)
                        [0..<frameCount])
                      [0..<nat numChannels]\<rparr>)))"

section \<open>The WAV encoder\<close>

text \<open>
  \<^verbatim>\<open>
  sample = Math.max(-1, Math.min(1, channels[i][pos]));
  sample = (0.5 + sample < 0 ? sample * 32768 : sample * 32767)|0;
  view.setInt16(44 + offset, sample, true);
  \<close>
  \<^verbatim>\<open>|0\<close> truncates towards zero, and \<^verbatim>\<open>setInt16\<close> keeps the low 16 bits. The comparison binds
  weaker than the addition, so the condition is \<^verbatim>\<open>(0.5 + sample) < 0\<close>.
\<close>

definition jsTrunc :: "rat \<Rightarrow> int" where
  "jsTrunc x = (if x < 0 then \<lceil>x\<rceil> else \<lfloor>x\<rfloor>)"

definition clampSample :: "rat \<Rightarrow> rat" where
  "clampSample x = max (-1) (min 1 x)"

definition scaleSample :: "rat \<Rightarrow> int" where
  "scaleSample sample = jsTrunc (if 1/2 + sample < 0 then sample * 32768 else sample * 32767)"

definition floatTo16 :: "rat \<Rightarrow> 16 word" where
  "floatTo16 x = word_of_int (scaleSample (clampSample x))"

text \<open>
  The conversion in the words of the specification: clamp, then scale by 32767 when the value
  is at least 0 and by 32768 when it is negative.
\<close>

definition scaleSample_spec :: "rat \<Rightarrow> int" where
  "scaleSample_spec sample = jsTrunc (if sample < 0 then sample * 32768 else sample * 32767)"

text \<open>
  A read past the end of a channel gives \<^verbatim>\<open>undefined\<close>, which the clamp turns into NaN and
  \<^verbatim>\<open>|0\<close> into 0.
\<close>

definition sampleTo16 :: "rat list \<Rightarrow> nat \<Rightarrow> 16 word" where
  "sampleTo16 channel pos = (if pos < length channel then floatTo16 (channel ! pos) else 0)"

definition bytes16 :: "16 word \<Rightarrow> byte list" where
  "bytes16 w = [ucast w, ucast (drop_bit 8 w)]"

definition bytes32 :: "32 word \<Rightarrow> byte list" where
  "bytes32 w = [ucast w, ucast (drop_bit 8 w), ucast (drop_bit 16 w), ucast (drop_bit 24 w)]"

primrec writeBytes :: "byte list \<Rightarrow> nat \<Rightarrow> byte list \<Rightarrow> byte list" where
  "writeBytes v p [] = v"
| "writeBytes v p (b # bs) = writeBytes (v[p := b]) (Suc p) bs"

text \<open>
  The encoder's variables: the bytes behind \<^verbatim>\<open>view\<close>, and the counters \<^verbatim>\<open>pos\<close> and
  \<^verbatim>\<open>offset\<close>. \<^verbatim>\<open>setUint16\<close> and \<^verbatim>\<open>setUint32\<close> write at \<^verbatim>\<open>pos\<close> and advance it; the data loop
  reads frame \<^verbatim>\<open>pos\<close> and writes at \<^verbatim>\<open>44 + offset\<close>.
\<close>

record wav =
  view :: "byte list"
  pos :: nat
  offset :: nat

definition setUint16 :: "int \<Rightarrow> wav \<Rightarrow> wav" where
  "setUint16 d st = st\<lparr>view := writeBytes (view st) (pos st) (bytes16 (word_of_int d)),
                       pos := pos st + 2\<rparr>"

definition setUint32 :: "int \<Rightarrow> wav \<Rightarrow> wav" where
  "setUint32 d st = st\<lparr>view := writeBytes (view st) (pos st) (bytes32 (word_of_int d)),
                       pos := pos st + 4\<rparr>"

definition writeHeader :: "AudioBuffer \<Rightarrow> nat \<Rightarrow> wav \<Rightarrow> wav" where
  "writeHeader buffer len st0 =
     (let numOfChan = int (numberOfChannels buffer);
          st1 = setUint32 0x46464952 st0;
          st2 = setUint32 (int len - 8) st1;
          st3 = setUint32 0x45564157 st2;
          st4 = setUint32 0x20746d66 st3;
          st5 = setUint32 16 st4;
          st6 = setUint16 1 st5;
          st7 = setUint16 numOfChan st6;
          st8 = setUint32 (sampleRate buffer) st7;
          st9 = setUint32 (sampleRate buffer * 2 * numOfChan) st8;
          st10 = setUint16 (numOfChan * 2) st9;
          st11 = setUint16 16 st10;
          st12 = setUint32 0x61746164 st11
      in setUint32 (int len - int (pos st12) - 4) st12)"

definition writeFrame :: "AudioBuffer \<Rightarrow> wav \<Rightarrow> wav" where
  "writeFrame buffer st =
     foldl (\<lambda>s i. s\<lparr>view := writeBytes (view s) (44 + offset s)
                               (bytes16 (sampleTo16 (channelData buffer ! i) (pos s))),
                     offset := offset s + 2\<rparr>)
       st [0..<numberOfChannels buffer]"

function writeData :: "AudioBuffer \<Rightarrow> wav \<Rightarrow> wav" where
  "writeData buffer st =
     (if pos st < bufferLength buffer
      then writeData buffer ((writeFrame buffer st)\<lparr>pos := pos st + 1\<rparr>)
      else st)"
  by pat_completeness auto
termination
  by (relation "measure (\<lambda>(buffer, st). bufferLength buffer - pos st)") auto

declare writeData.simps [simp del]

definition getWavBlob :: "AudioBuffer option \<Rightarrow> byte list option" where
  "getWavBlob audioBuffer =
     (case audioBuffer of
        None \<Rightarrow> None
      | Some buffer \<Rightarrow>
          (let numOfChan = numberOfChannels buffer;
               len = bufferLength buffer * numOfChan * 2 + 44;
               st = \<lparr>view = replicate len 0, pos = 0, offset = 0\<rparr>
           in Some (view (writeData buffer (writeHeader buffer len st)))))"

section \<open>The waveform of the audio player\<close>

text \<open>
  \<^verbatim>\<open>
  const data = audioBuffer.getChannelData(0);
  const step = Math.ceil(data.length / width);
  const barWidth = 2; const gap = 1;
  for (let i = 0; i < width; i += (barWidth + gap)) {
    let min = 1.0; let max = -1.0;
    for (let j = 0; j < step; j++) {
      const datum = data[(i * step) + j];
      if (datum < min) min = datum;
      if (datum > max) max = datum;
    }
    const val = Math.max(Math.abs(min), Math.abs(max));
    ...
  }
  \<close>
  The model returns the magnitude \<^verbatim>\<open>val\<close> of every bar drawn, in drawing order. A read past
  the end of the data gives \<^verbatim>\<open>undefined\<close>, for which both comparisons are false. With width 0
  the outer loop does not run. The width is taken in whole pixels, and the canvas and its
  drawing context are taken to exist.
\<close>

definition scanWindow :: "rat list \<Rightarrow> nat \<Rightarrow> nat \<Rightarrow> rat \<times> rat" where
  "scanWindow samples start step =
     foldl (\<lambda>(mn, mx) j.
              if start + j < length samples
              then (let datum = samples ! (start + j)
                    in (if datum < mn then datum else mn, if datum > mx then datum else mx))
              else (mn, mx))
       (1, -1) [0..<step]"

definition barMagnitude :: "rat list \<Rightarrow> nat \<Rightarrow> nat \<Rightarrow> rat" where
  "barMagnitude samples step i =
     (let (mn, mx) = scanWindow samples (i * step) step in max \<bar>mn\<bar> \<bar>mx\<bar>)"

function drawBars :: "rat list \<Rightarrow> nat \<Rightarrow> nat \<Rightarrow> nat \<Rightarrow> rat list" where
  "drawBars samples step width i =
     (if i < width then barMagnitude samples step i # drawBars samples step width (i + 3)
      else [])"
  by pat_completeness auto
termination
  by (relation "measure (\<lambda>(samples, step, width, i). width - i)") auto

declare drawBars.simps [simp del]

definition drawWaveform :: "AudioBuffer option \<Rightarrow> nat \<Rightarrow> rat list" where
  "drawWaveform audioBuffer width =
     (case audioBuffer of
        None \<Rightarrow> []
      | Some buffer \<Rightarrow>
          (let samples = (case channelData buffer of [] \<Rightarrow> [] | c # _ \<Rightarrow> c);
               step = (if width = 0 then 0
                       else nat \<lceil>(of_nat (length samples) :: rat) / of_nat width\<rceil>)
           in drawBars samples step width 0))"

section \<open>Double-precision arithmetic\<close>

text \<open>
  The playback engine computes with JavaScript numbers. A number is modelled as the rational
  it denotes, and every arithmetic operation of the source is followed by the rounding \<open>fl\<close>
  to the nearest double (53 significant bits, ties to the even significand). Overflow,
  subnormal numbers, infinities and NaN are not modelled; the playback rate is positive.
\<close>

function bitLength :: "int \<Rightarrow> int" where
  "bitLength n = (if n \<le> 0 then 0 else 1 + bitLength (n div 2))"
  by pat_completeness auto
termination
  by (relation "measure nat") auto

declare bitLength.simps [simp del]

function pow2 :: "int \<Rightarrow> rat" where
  "pow2 k = (if k = 0 then 1 else if 0 < k then 2 * pow2 (k - 1) else pow2 (k + 1) / 2)"
  by pat_completeness auto
termination
  by (relation "measure (\<lambda>k. nat \<bar>k\<bar>)") auto

declare pow2.simps [simp del]

text \<open>The binary exponent of a positive rational: the \<open>e\<close> with \<open>2^e \<le> x < 2^(e+1)\<close>.\<close>

definition exponent :: "rat \<Rightarrow> int" where
  "exponent x =
     (let (p, q) = quotient_of x;
          k = bitLength p - bitLength q
      in if pow2 k \<le> x then k else k - 1)"

definition roundHalfEven :: "rat \<Rightarrow> int" where
  "roundHalfEven y =
     (let f = \<lfloor>y\<rfloor>; d = y - of_int f
      in if d < 1 / 2 then f else if 1 / 2 < d then f + 1 else if even f then f else f + 1)"

definition fl :: "rat \<Rightarrow> rat" where
  "fl x =
     (if x = 0 then 0
      else (let u = pow2 (exponent \<bar>x\<bar> - 52) in of_int (roundHalfEven (x / u)) * u))"

section \<open>The playback engine of the audio player\<close>

text \<open>
  The refs of the component: \<^verbatim>\<open>pausedAtRef\<close>, \<^verbatim>\<open>startTimeRef\<close>, \<^verbatim>\<open>sourceRef\<close> (the source
  node last started, with its buffer, the buffer offset and the playback rate it was started
  at, which are also the values its \<^verbatim>\<open>onended\<close> handler captured), whether that node has been
  stopped, whether the audio context exists, and the states \<^verbatim>\<open>isPlaying\<close> and \<^verbatim>\<open>progress\<close>.
  The platform's part is the list of the source nodes that have stopped and whose \<^verbatim>\<open>ended\<close>
  event has not been handled yet. The clock \<^verbatim>\<open>audioContext.currentTime\<close> is an argument of
  every operation. \<^verbatim>\<open>audioBuffer.duration\<close> is the quotient of length and sample rate as a
  double.
\<close>

definition bufferDuration :: "AudioBuffer \<Rightarrow> rat" where
  "bufferDuration b = fl (duration b)"

record sourceNode =
  nodeBuffer :: AudioBuffer
  startOffset :: rat
  playbackRate :: rat

record player =
  pausedAt :: rat
  startTime :: rat
  sourceRef :: "sourceNode option"
  sourceStopped :: bool
  ended :: "sourceNode list"
  hasContext :: bool
  isPlaying :: bool
  progress :: rat

text \<open>
  \<^verbatim>\<open>
  const source = audioContextRef.current.createBufferSource();
  source.buffer = audioBuffer;
  source.playbackRate.value = pitch;
  const offset = pausedAtRef.current;
  startTimeRef.current = audioContextRef.current.currentTime;
  source.start(0, offset);
  sourceRef.current = source;
  setIsPlaying(true);
  source.onended = () => { ... };
  \<close>
\<close>

definition play :: "AudioBuffer option \<Rightarrow> rat \<Rightarrow> rat \<Rightarrow> player \<Rightarrow> player" where
  "play audioBuffer pitch currentTime st =
     (case audioBuffer of
        None \<Rightarrow> st
      | Some b \<Rightarrow>
          if \<not> hasContext st then st
          else st\<lparr>startTime := currentTime,
                  sourceRef := Some \<lparr>nodeBuffer = b, startOffset = pausedAt st,
                                      playbackRate = pitch\<rparr>,
                  sourceStopped := False,
                  isPlaying := True\<rparr>)"

text \<open>
  \<^verbatim>\<open>
  sourceRef.current.stop();
  sourceRef.current.disconnect();
  const elapsedRealTime = audioContextRef.current.currentTime - startTimeRef.current;
  pausedAtRef.current = pausedAtRef.current + (elapsedRealTime * pitch);
  setIsPlaying(false);
  \<close>
  \<^verbatim>\<open>stop\<close> makes the platform raise the \<^verbatim>\<open>ended\<close> event of the node, once: a node that has
  been stopped already raises none.
\<close>

definition pause :: "rat \<Rightarrow> rat \<Rightarrow> player \<Rightarrow> player" where
  "pause pitch currentTime st =
     (case sourceRef st of
        None \<Rightarrow> st
      | Some source \<Rightarrow>
          if \<not> hasContext st then st
          else st\<lparr>ended := (if sourceStopped st then ended st else ended st @ [source]),
                  sourceStopped := True,
                  pausedAt := fl (pausedAt st + fl (fl (currentTime - startTime st) * pitch)),
                  isPlaying := False\<rparr>)"

text \<open>
  The \<^verbatim>\<open>onended\<close> handler that \<^verbatim>\<open>play\<close> attaches to its source; the buffer, \<^verbatim>\<open>offs\<close> and
  \<^verbatim>\<open>pitch\<close> are the values \<^verbatim>\<open>play\<close> captured.
  \<^verbatim>\<open>
  const playbackDuration = audioBuffer.duration / pitch;
  const elapsed = audioContextRef.current!.currentTime - startTimeRef.current;
  if (elapsed + 0.1 >= playbackDuration - (offset / pitch)) {
    setIsPlaying(false); pausedAtRef.current = 0; setProgress(0); ...
  }
  \<close>
\<close>

definition onended :: "AudioBuffer \<Rightarrow> rat \<Rightarrow> rat \<Rightarrow> rat \<Rightarrow> player \<Rightarrow> player" where
  "onended b offs pitch currentTime st =
     (let playbackDuration = fl (bufferDuration b / pitch);
          elapsed = fl (currentTime - startTime st)
      in if fl (elapsed + fl (1 / 10)) \<ge> fl (playbackDuration - fl (offs / pitch))
         then st\<lparr>isPlaying := False, pausedAt := 0, progress := 0\<rparr>
         else st)"

text \<open>The platform delivers the oldest \<^verbatim>\<open>ended\<close> event that is waiting to its handler.\<close>

definition handleEnded :: "rat \<Rightarrow> player \<Rightarrow> player" where
  "handleEnded currentTime st =
     (case ended st of
        [] \<Rightarrow> st
      | source # rest \<Rightarrow>
          onended (nodeBuffer source) (startOffset source) (playbackRate source) currentTime
            (st\<lparr>ended := rest\<rparr>))"

section \<open>The speech synthesis client\<close>

datatype Gender = GIRL | BOY

datatype Accent = AMERICAN | INDIAN

datatype Tone = HAPPY | FRIENDLY | ANGRY | EXCITED | CALM

fun accentString :: "Accent \<Rightarrow> string" where
  "accentString AMERICAN = ''American English''"
| "accentString INDIAN = ''Indian English''"

fun toneString :: "Tone \<Rightarrow> string" where
  "toneString HAPPY = ''Happy''"
| "toneString FRIENDLY = ''Friendly''"
| "toneString ANGRY = ''Angry''"
| "toneString EXCITED = ''Excited''"
| "toneString CALM = ''Calm''"

record VoiceConfig =
  presetId :: "string option"
  gender :: Gender
  age :: int
  accent :: Accent
  pitch :: rat
  tone :: Tone

text \<open>The response of \<^verbatim>\<open>ai.models.generateContent\<close>, as far as the client reads it.\<close>

record Blob =
  blobData :: "string option"

record Part =
  inlineData :: "Blob option"

record Content =
  parts :: "Part list option"

record Candidate =
  finishReason :: "string option"
  content :: "Content option"

record GenerateContentResponse =
  candidates :: "Candidate list option"

text \<open>
  A request carries the prompt and the prebuilt voice. The remote service is a function of the
  request and of its own state, which answers with a response or raises. The world of a call
  is the state of the service together with the requests issued so far, oldest first.
\<close>

record request =
  promptText :: string
  voiceName :: string

type_synonym 's backend = "request \<Rightarrow> 's \<Rightarrow> (jserror + GenerateContentResponse) \<times> 's"

record 's world =
  requests :: "request list"
  service :: 's

definition generateContent ::
  "'s backend \<Rightarrow> request \<Rightarrow> 's world \<Rightarrow> (jserror + GenerateContentResponse) \<times> 's world" where
  "generateContent be req w =
     (let (r, s') = be req (service w)
      in (r, \<lparr>requests = requests w @ [req], service = s'\<rparr>))"

definition getClient :: "platform \<Rightarrow> jserror + unit" where
  "getClient pf =
     (case apiKey pf of
        None \<Rightarrow> Inl (Error ''API Key not found in environment variables'')
      | Some k \<Rightarrow> if k = [] then Inl (Error ''API Key not found in environment variables'')
                  else Inr ())"

text \<open>\<^verbatim>\<open>p.inlineData && p.inlineData.data\<close>: the payload is there and not the empty string.\<close>

definition audioOf :: "Part \<Rightarrow> string option" where
  "audioOf p =
     (case inlineData p of
        None \<Rightarrow> None
      | Some b \<Rightarrow> (case blobData b of
                    None \<Rightarrow> None
                  | Some d \<Rightarrow> if d = [] then None else Some d))"

text \<open>What the body of the \<^verbatim>\<open>try\<close> block makes of a response, up to the audio payload.\<close>

definition extractAudio :: "GenerateContentResponse \<Rightarrow> jserror + string" where
  "extractAudio response =
     (case candidates response of
        None \<Rightarrow> Inl (Error ''No candidates returned from API.'')
      | Some [] \<Rightarrow> Inl (Error ''No candidates returned from API.'')
      | Some (candidate # _) \<Rightarrow>
          if finishReason candidate \<noteq> Some ''STOP'' \<and> content candidate = None
          then Inl (Error (''Stopped. Reason: '' @
                 (case finishReason candidate of
                    None \<Rightarrow> ''UNKNOWN''
                  | Some reason \<Rightarrow> if reason = [] then ''UNKNOWN'' else reason)))
          else
            (let ps = (case content candidate of
                         None \<Rightarrow> []
                       | Some c \<Rightarrow> (case parts c of None \<Rightarrow> [] | Some l \<Rightarrow> l))
             in case List.find (\<lambda>p. audioOf p \<noteq> None) ps of
                  None \<Rightarrow> Inl (Error ''No audio data received.'')
                | Some audioPart \<Rightarrow>
                    (case audioOf audioPart of
                       None \<Rightarrow> Inl (Error ''No audio data received.'')
                     | Some base64Audio \<Rightarrow> Inr base64Audio)))"

text \<open>
  One pass through the \<^verbatim>\<open>try\<close> block: the request, the extraction of the payload, and its
  decoding at 24000 Hz with one channel. Every failure on the way is caught by the loop. The
  audio context the block creates at 24000 Hz is not modelled apart from the \<^verbatim>\<open>createBuffer\<close>
  it serves; a platform without that rate fails there with the same \<^verbatim>\<open>NotSupportedError\<close>.
\<close>

definition attempt ::
  "platform \<Rightarrow> 's backend \<Rightarrow> request \<Rightarrow> 's world \<Rightarrow> (jserror + AudioBuffer) \<times> 's world" where
  "attempt pf be req w =
     (let (r, w') = generateContent be req w
      in (case r of
            Inl e \<Rightarrow> Inl e
          | Inr response \<Rightarrow>
              (case extractAudio response of
                 Inl e \<Rightarrow> Inl e
               | Inr base64Audio \<Rightarrow>
                   (case decode pf base64Audio of
                      Inl e \<Rightarrow> Inl e
                    | Inr bytes \<Rightarrow> decodeAudioData pf bytes 24000 1)),
          w'))"

text \<open>
  \<^verbatim>\<open>
  let lastError;
  for (const promptText of prompts) {
    try { ...; return audioBuffer; }
    catch (error) { lastError = error; await new Promise(r => setTimeout(r, 800)); }
  }
  throw lastError || new Error("Voice generation failed after retries.");
  \<close>
\<close>

fun tryPrompts ::
  "platform \<Rightarrow> 's backend \<Rightarrow> string \<Rightarrow> string list \<Rightarrow> jserror option \<Rightarrow> 's world
     \<Rightarrow> (jserror + AudioBuffer) \<times> 's world" where
  "tryPrompts pf be voice [] lastError w =
     (case lastError of
        None \<Rightarrow> (Inl (Error ''Voice generation failed after retries.''), w)
      | Some e \<Rightarrow> (Inl e, w))"
| "tryPrompts pf be voice (p # ps) lastError w =
     (case attempt pf be \<lparr>promptText = p, voiceName = voice\<rparr> w of
        (Inr audioBuffer, w') \<Rightarrow> (Inr audioBuffer, w')
      | (Inl e, w') \<Rightarrow> tryPrompts pf be voice ps (Some e) w')"

definition prompts :: "VoiceConfig \<Rightarrow> string \<Rightarrow> string list" where
  "prompts config clean =
     [''Say with a '' @ accentString (accent config) @ '' accent and ''
        @ toneString (tone config) @ '' tone: '' @ clean,
      ''Read the following text aloud: '' @ clean,
      clean]"

definition voiceFor :: "VoiceConfig \<Rightarrow> string" where
  "voiceFor config = (if gender config = GIRL then ''Kore'' else ''Puck'')"

definition generateVoiceover ::
  "platform \<Rightarrow> 's backend \<Rightarrow> string \<Rightarrow> VoiceConfig \<Rightarrow> 's world
     \<Rightarrow> (jserror + AudioBuffer) \<times> 's world" where
  "generateVoiceover pf be text config w =
     (case getClient pf of
        Inl e \<Rightarrow> (Inl e, w)
      | Inr _ \<Rightarrow>
          (let clean = cleanText text
           in if clean = [] then (Inl (Error ''Text segment is empty after cleaning.''), w)
              else tryPrompts pf be (voiceFor config) (prompts config clean) None w))"

section \<open>The batch synthesis driver\<close>

datatype status = idle | generating | completed | error

record VoiceSegment =
  segId :: nat
  segText :: string
  segAudio :: "AudioBuffer option"
  videoUrl :: "string option"
  segStatus :: status
  videoStatus :: status

record app =
  segments :: "VoiceSegment list"
  audioBuffer :: "AudioBuffer option"
  activeVideoUrl :: "string option"
  errorMessage :: "string option"
  isGenerating :: bool

text \<open>
  \<^verbatim>\<open>script.split(/\n+/)\<close>: the pieces between the maximal runs of line feeds, the empty pieces
  at the ends included.
\<close>

function splitLines :: "string \<Rightarrow> string list" where
  "splitLines s =
     (case dropWhile (\<lambda>c. c \<noteq> CHR 0x0A) s of
        [] \<Rightarrow> [takeWhile (\<lambda>c. c \<noteq> CHR 0x0A) s]
      | _ # rest \<Rightarrow>
          takeWhile (\<lambda>c. c \<noteq> CHR 0x0A) s # splitLines (dropWhile (\<lambda>c. c = CHR 0x0A) rest))"
  by pat_completeness auto
termination
proof (relation "measure length")
  fix s :: string and x :: char and rest :: string
  assume "dropWhile (\<lambda>c. c \<noteq> CHR 0x0A) s = x # rest"
  then have "length (x # rest) \<le> length s"
    using length_dropWhile_le [of "\<lambda>c. c \<noteq> CHR 0x0A" s] by simp
  moreover have "length (dropWhile (\<lambda>c. c = CHR 0x0A) rest) \<le> length rest"
    by (rule length_dropWhile_le)
  ultimately show "(dropWhile (\<lambda>c. c = CHR 0x0A) rest, s) \<in> measure length"
    by simp
qed simp

declare splitLines.simps [simp del]

text \<open>
  The segments of a script. The identifier \<^verbatim>\<open>seg-<time>-<index>\<close> of the source differs
  between two segments in its index alone, which is what the model keeps of it.
\<close>

definition rawSegments :: "string \<Rightarrow> string list" where
  "rawSegments script = filter (\<lambda>s. trim s \<noteq> []) (splitLines script)"

definition newSegment :: "nat \<Rightarrow> string \<Rightarrow> VoiceSegment" where
  "newSegment idx t =
     \<lparr>segId = idx, segText = trim t, segAudio = None, videoUrl = None,
      segStatus = idle, videoStatus = idle\<rparr>"

definition newSegments :: "string list \<Rightarrow> VoiceSegment list" where
  "newSegments raw = map (\<lambda>(idx, t). newSegment idx t) (enumerate 0 raw)"

text \<open>\<^verbatim>\<open>setSegments(prev => prev.map(s => s.id === segment.id ? f(s) : s))\<close>\<close>

definition updateSegment ::
  "nat \<Rightarrow> (VoiceSegment \<Rightarrow> VoiceSegment) \<Rightarrow> VoiceSegment list \<Rightarrow> VoiceSegment list" where
  "updateSegment sid f segs = map (\<lambda>s. if segId s = sid then f s else s) segs"

text \<open>
  \<^verbatim>\<open>
  for (let i = 0; i < newSegments.length; i++) {
    const segment = newSegments[i];
    setSegments(... status: 'generating' ...);
    try {
      const buffer = await generateVoiceover(segment.text, config);
      setSegments(... audioBuffer: buffer, status: 'completed' ...);
      if (i === 0) setAudioBuffer(buffer);
    } catch (err) {
      setSegments(... status: 'error' ...);
    }
  }
  \<close>
  The loop runs over the segments still to do, with the index of the first of them.
\<close>

fun scenesLoop ::
  "platform \<Rightarrow> 's backend \<Rightarrow> VoiceConfig \<Rightarrow> nat \<Rightarrow> VoiceSegment list \<Rightarrow> app \<times> 's world
     \<Rightarrow> app \<times> 's world" where
  "scenesLoop pf be config i [] (st, w) = (st, w)"
| "scenesLoop pf be config i (segment # rest) (st, w) =
     (let st1 = st\<lparr>segments :=
                  updateSegment (segId segment) (\<lambda>s. s\<lparr>segStatus := generating\<rparr>) (segments st)\<rparr>
      in case generateVoiceover pf be (segText segment) config w of
           (Inr buffer, w') \<Rightarrow>
             (let st2 = st1\<lparr>segments :=
                          updateSegment (segId segment)
                            (\<lambda>s. s\<lparr>segAudio := Some buffer, segStatus := completed\<rparr>)
                            (segments st1)\<rparr>;
                  st3 = (if i = 0 then st2\<lparr>audioBuffer := Some buffer\<rparr> else st2)
              in scenesLoop pf be config (i + 1) rest (st3, w'))
         | (Inl err, w') \<Rightarrow>
             scenesLoop pf be config (i + 1) rest
               (st1\<lparr>segments :=
                     updateSegment (segId segment) (\<lambda>s. s\<lparr>segStatus := error\<rparr>) (segments st1)\<rparr>,
                w'))"

definition handleGenerateScenes ::
  "platform \<Rightarrow> 's backend \<Rightarrow> string \<Rightarrow> VoiceConfig \<Rightarrow> app \<times> 's world \<Rightarrow> app \<times> 's world" where
  "handleGenerateScenes pf be script config stw =
     (let (st, w) = stw;
          st0 = st\<lparr>isGenerating := True, errorMessage := None, audioBuffer := None,
                   activeVideoUrl := None\<rparr>;
          raw = rawSegments script
      in if raw = [] then (st0\<lparr>errorMessage := Some ''Script is empty!'', isGenerating := False\<rparr>, w)
         else
           (let segs = newSegments raw;
                (st', w') = scenesLoop pf be config 0 segs (st0\<lparr>segments := segs\<rparr>, w)
            in (st'\<lparr>isGenerating := False\<rparr>, w')))"

section \<open>Auxiliary definitions for the statements\<close>

text \<open>
  The composition the round-trip property speaks of: the encoder, then the decoder on the data
  chunk (the bytes behind the 44-byte header) at the buffer's sample rate and channel count.
\<close>

definition roundTrip :: "platform \<Rightarrow> AudioBuffer \<Rightarrow> (jserror + AudioBuffer) option" where
  "roundTrip pf a =
     (case getWavBlob (Some a) of
        None \<Rightarrow> None
      | Some wav \<Rightarrow> Some (decodeAudioData pf (drop 44 wav) (sampleRate a) (int (numberOfChannels a))))"

text \<open>A result is a failure whose error object has the given name.\<close>

definition raises :: "string \<Rightarrow> jserror + 'a \<Rightarrow> bool" where
  "raises name r = (case r of Inl e \<Rightarrow> errName e = name | Inr _ \<Rightarrow> False)"

text \<open>
  A platform for concrete runs: a key is set, \<^verbatim>\<open>atob\<close> hands its argument through as the
  binary string, and \<^verbatim>\<open>createBuffer\<close> takes up to 32 channels at 8000 to 96000 Hz.
\<close>

definition testPlatform :: platform where
  "testPlatform = \<lparr>apiKey = Some ''key'', atob = (\<lambda>s. Inr s), maxChannels = 32,
          minSampleRate = 8000, maxSampleRate = 96000\<rparr>"

text \<open>
  A remote service for concrete runs: it answers the n-th request it receives with the n-th
  entry of a script, whatever the request says.
\<close>

definition scripted :: "(jserror + GenerateContentResponse) list \<Rightarrow> nat backend" where
  "scripted answers req n =
     (if n < length answers then answers ! n else Inl (Error ''no answer scripted''), Suc n)"

text \<open>A response with one candidate that stopped normally and carries one audio payload.\<close>

definition audioResponse :: "string \<Rightarrow> GenerateContentResponse" where
  "audioResponse payload =
     \<lparr>candidates = Some [\<lparr>finishReason = Some ''STOP'',
        content = Some \<lparr>parts = Some [\<lparr>inlineData = Some \<lparr>blobData = Some payload\<rparr>\<rparr>]\<rparr>\<rparr>]\<rparr>"

definition testConfig :: VoiceConfig where
  "testConfig = \<lparr>presetId = None, gender = GIRL, age = 8, accent = INDIAN, pitch = 6 / 5,
                 tone = FRIENDLY\<rparr>"

text \<open>The request \<^verbatim>\<open>generateVoiceover\<close> sends for a prompt under a voice configuration.\<close>

definition request :: "VoiceConfig \<Rightarrow> string \<Rightarrow> request" where
  "request config p = \<lparr>promptText = p, voiceName = voiceFor config\<rparr>"

definition world0 :: "nat world" where
  "world0 = \<lparr>requests = [], service = 0\<rparr>"

definition failTwice :: "nat backend" where
  "failTwice = scripted [Inl (Error ''first''), Inl (Error ''second''),
                         Inr (audioResponse [CHR 0x00, CHR 0x40])]"

definition failThrice :: "nat backend" where
  "failThrice = scripted [Inl (Error ''first''), Inl (Error ''second''), Inl (Error ''third'')]"

text \<open>
  The calls of \<^verbatim>\<open>generateVoiceover\<close> on a list of texts, one after the other, each in the world
  the one before left, whatever its outcome; and what a segment looks like once its call has
  returned.
\<close>

fun synthesizeAll ::
  "platform \<Rightarrow> 's backend \<Rightarrow> VoiceConfig \<Rightarrow> string list \<Rightarrow> 's world
     \<Rightarrow> (jserror + AudioBuffer) list \<times> 's world" where
  "synthesizeAll pf be config [] w = ([], w)"
| "synthesizeAll pf be config (t # ts) w =
     (let (r, w') = generateVoiceover pf be t config w;
          (rs, w'') = synthesizeAll pf be config ts w'
      in (r # rs, w''))"

definition finishedSegment :: "nat \<Rightarrow> string \<Rightarrow> jserror + AudioBuffer \<Rightarrow> VoiceSegment" where
  "finishedSegment idx t r =
     (case r of
        Inr buffer \<Rightarrow> (newSegment idx t)\<lparr>segAudio := Some buffer, segStatus := completed\<rparr>
      | Inl e \<Rightarrow> (newSegment idx t)\<lparr>segStatus := error\<rparr>)"

fun finishedSegments ::
  "nat \<Rightarrow> string list \<Rightarrow> (jserror + AudioBuffer) list \<Rightarrow> VoiceSegment list" where
  "finishedSegments i (t # ts) (r # rs) = finishedSegment i t r # finishedSegments (Suc i) ts rs"
| "finishedSegments i _ _ = []"

text \<open>The audio of the first result of a list, when that result is a success.\<close>

definition firstAudio :: "(jserror + AudioBuffer) list \<Rightarrow> AudioBuffer option" where
  "firstAudio rs = (case rs of Inr buffer # _ \<Rightarrow> Some buffer | _ \<Rightarrow> None)"

text \<open>The initial state of the application, and a service that fails three times.\<close>

definition app0 :: app where
  "app0 = \<lparr>segments = [], audioBuffer = None, activeVideoUrl = None, errorMessage = None,
           isGenerating = False\<rparr>"

definition failThenAnswer :: "nat backend" where
  "failThenAnswer = scripted [Inl (Error ''first''), Inl (Error ''second''),
       Inl (Error ''third''), Inr (audioResponse [CHR 0x00, CHR 0x40])]"

text \<open>
  The player in its stopped state with offset 0, and a silent buffer of a given number of
  frames at 24000 Hz.
\<close>

definition stopped0 :: player where
  "stopped0 = \<lparr>pausedAt = 0, startTime = 0, sourceRef = None, sourceStopped = False,
               ended = [], hasContext = True, isPlaying = False, progress = 0\<rparr>"

definition silence :: "nat \<Rightarrow> AudioBuffer" where
  "silence n = \<lparr>channelData = [replicate n 0], sampleRate = 24000\<rparr>"

section \<open>Properties of the text cleaning\<close>

lemma isWhiteSpace_space: "isWhiteSpace CHR '' ''"
  by (simp add: isWhiteSpace_def)

lemma subseq_trans': "subseq xs ys \<Longrightarrow> subseq ys zs \<Longrightarrow> subseq xs zs"
  by (rule subseq_order.trans)

lemma dropWhile_Cons_subseq:
  assumes "dropWhile P cs = x # rest"
  shows "subseq rest cs"
proof -
  have "subseq (dropWhile P cs) cs"
    by (rule suffix_imp_subseq [OF suffix_dropWhile])
  then have "subseq (x # rest) cs" using assms by simp
  then show ?thesis by (rule subseq_Cons')
qed

lemma subseq_set_mono: "subseq xs ys \<Longrightarrow> set xs \<subseteq> set ys"
  by (induction rule: list_emb.induct) auto

lemma stripSpan_subseq: "subseq (stripSpan l r s) s"
proof (induction l r s rule: stripSpan.induct)
  case (1 l r)
  show ?case by simp
next
  case (2 l r c cs)
  show ?case
  proof (cases "c = l")
    case False
    with 2 show ?thesis by simp
  next
    case True
    show ?thesis
    proof (cases "dropWhile (\<lambda>x. x \<noteq> r) cs")
      case Nil
      with True 2 show ?thesis by (simp del: dropWhile_eq_Nil_conv)
    next
      case (Cons x rest)
      have "subseq rest cs"
        using Cons by (rule dropWhile_Cons_subseq)
      moreover have "subseq (stripSpan l r rest) rest"
        using 2 True Cons by simp
      ultimately have "subseq (stripSpan l r rest) cs"
        by (rule subseq_trans' [rotated])
      then have "subseq (stripSpan l r rest) (c # cs)"
        by (rule list_emb_Cons)
      with True Cons show ?thesis by simp
    qed
  qed
qed

lemma stripSpan_unpaired: "\<not> subseq [l, r] (stripSpan l r s)"
proof (induction l r s rule: stripSpan.induct)
  case (1 l r)
  show ?case by simp
next
  case (2 l r c cs)
  show ?case
  proof (cases "c = l")
    case False
    with 2 show ?thesis by simp
  next
    case True
    show ?thesis
    proof (cases "dropWhile (\<lambda>x. x \<noteq> r) cs")
      case Nil
      then have "r \<notin> set cs"
        by auto
      then have "r \<notin> set (stripSpan l r cs)"
        using subseq_set_mono [OF stripSpan_subseq] by blast
      with True Nil show ?thesis
        by (simp add: subseq_singleton_left del: dropWhile_eq_Nil_conv)
    next
      case (Cons x rest)
      with True 2 show ?thesis by simp
    qed
  qed
qed

lemma stripSpan_ident: "\<not> subseq [l, r] s \<Longrightarrow> stripSpan l r s = s"
proof (induction l r s rule: stripSpan.induct)
  case (1 l r)
  show ?case by simp
next
  case (2 l r c cs)
  show ?case
  proof (cases "c = l")
    case False
    with 2 show ?thesis by simp
  next
    case True
    with 2(4) have nr: "r \<notin> set cs"
      by (simp add: subseq_singleton_left)
    then have dw: "dropWhile (\<lambda>x. x \<noteq> r) cs = []"
      by auto
    have "\<not> subseq [l, r] cs"
    proof
      assume "subseq [l, r] cs"
      then have "subseq [r] cs" by (rule subseq_Cons')
      with nr show False by (simp add: subseq_singleton_left)
    qed
    with 2(1) True dw have "stripSpan l r cs = cs"
      by (simp del: dropWhile_eq_Nil_conv)
    with True dw show ?thesis by (simp del: dropWhile_eq_Nil_conv)
  qed
qed

lemma collapseSpaces_nonspace:
  "filter (\<lambda>c. \<not> isWhiteSpace c) (collapseSpaces s) = filter (\<lambda>c. \<not> isWhiteSpace c) s"
proof (induction s rule: collapseSpaces.induct)
  case 1
  show ?case by simp
next
  case (2 c cs)
  have dw: "filter (\<lambda>c. \<not> isWhiteSpace c) (dropWhile isWhiteSpace cs)
      = filter (\<lambda>c. \<not> isWhiteSpace c) cs"
    by (induction cs) simp_all
  show ?case
    using 2 dw by (simp add: isWhiteSpace_space)
qed

lemma list_all_filter_Nil: "list_all P s \<longleftrightarrow> filter (\<lambda>c. \<not> P c) s = []"
  by (induction s) simp_all

lemma collapseSpaces_all_space:
  "list_all isWhiteSpace (collapseSpaces s) \<longleftrightarrow> list_all isWhiteSpace s"
  by (simp add: list_all_filter_Nil collapseSpaces_nonspace)

lemma collapseSpaces_set: "set (collapseSpaces s) \<subseteq> insert CHR '' '' (set s)"
proof (induction s rule: collapseSpaces.induct)
  case 1
  show ?case by simp
next
  case (2 c cs)
  have "set (dropWhile isWhiteSpace cs) \<subseteq> set cs"
    by (auto dest: set_dropWhileD)
  with 2 show ?case by auto
qed

lemma collapseSpaces_head:
  "s = [] \<or> \<not> isWhiteSpace (hd s) \<Longrightarrow> dropWhile isWhiteSpace (collapseSpaces s) = collapseSpaces s"
  by (cases s) auto

lemma dropWhile_head: "dropWhile P s = [] \<or> \<not> P (hd (dropWhile P s))"
  by (metis hd_dropWhile)

lemma collapseSpaces_idem: "collapseSpaces (collapseSpaces s) = collapseSpaces s"
proof (induction s rule: collapseSpaces.induct)
  case 1
  show ?case by simp
next
  case (2 c cs)
  show ?case
  proof (cases "isWhiteSpace c")
    case True
    have "dropWhile isWhiteSpace (collapseSpaces (dropWhile isWhiteSpace cs))
        = collapseSpaces (dropWhile isWhiteSpace cs)"
      by (rule collapseSpaces_head) (rule dropWhile_head)
    with True 2 show ?thesis by (simp add: isWhiteSpace_space)
  next
    case False
    with 2 show ?thesis by simp
  qed
qed

lemma collapseSpaces_trimStart:
  "collapseSpaces (trimStart s) = trimStart (collapseSpaces s)"
proof (cases s)
  case Nil
  then show ?thesis by (simp add: trimStart_def)
next
  case (Cons c cs)
  show ?thesis
  proof (cases "isWhiteSpace c")
    case True
    have "dropWhile isWhiteSpace (collapseSpaces (dropWhile isWhiteSpace cs))
        = collapseSpaces (dropWhile isWhiteSpace cs)"
      by (rule collapseSpaces_head) (rule dropWhile_head)
    with True Cons show ?thesis by (simp add: trimStart_def isWhiteSpace_space)
  next
    case False
    with Cons show ?thesis by (simp add: trimStart_def)
  qed
qed

lemma dropWhile_all: "list_all P s \<Longrightarrow> dropWhile P s = []"
  by (induction s) simp_all

lemma trimEnd_dropWhile:
  "dropWhile isWhiteSpace (trimEnd s) = trimEnd (dropWhile isWhiteSpace s)"
  by (induction s) (auto simp: dropWhile_all simp del: dropWhile_eq_Nil_conv)

lemma dropWhile_all_space:
  "list_all isWhiteSpace (dropWhile isWhiteSpace s) \<longleftrightarrow> list_all isWhiteSpace s"
  by (induction s) auto

lemma collapseSpaces_trimEnd:
  "collapseSpaces (trimEnd s) = trimEnd (collapseSpaces s)"
proof (induction s rule: collapseSpaces.induct)
  case 1
  show ?case by simp
next
  case (2 c cs)
  show ?case
  proof (cases "isWhiteSpace c")
    case False
    with 2 show ?thesis by simp
  next
    case sp: True
    show ?thesis
    proof (cases "list_all isWhiteSpace cs")
      case True
      with sp show ?thesis
        by (simp add: collapseSpaces_all_space dropWhile_all_space isWhiteSpace_space)
    next
      case False
      with sp 2 show ?thesis
        by (simp add: collapseSpaces_all_space dropWhile_all_space isWhiteSpace_space
            trimEnd_dropWhile)
    qed
  qed
qed

lemma collapseSpaces_trim: "collapseSpaces (trim s) = trim (collapseSpaces s)"
  by (simp add: trim_def collapseSpaces_trimEnd collapseSpaces_trimStart)

lemma trimEnd_all_space: "list_all isWhiteSpace (trimEnd s) \<longleftrightarrow> list_all isWhiteSpace s"
  by (induction s) auto

lemma trimEnd_idem: "trimEnd (trimEnd s) = trimEnd s"
  by (induction s) (auto simp: trimEnd_all_space)

lemma trim_idem: "trim (trim s) = trim s"
  by (simp add: trim_def trimStart_def trimEnd_dropWhile trimEnd_idem)

lemma trimEnd_subseq: "subseq (trimEnd s) s"
  by (induction s) auto

lemma trim_subseq: "subseq (trim s) s"
proof -
  have "subseq (dropWhile isWhiteSpace s) s"
    by (rule suffix_imp_subseq [OF suffix_dropWhile])
  then show ?thesis
    unfolding trim_def trimStart_def by (rule subseq_trans' [OF trimEnd_subseq])
qed

lemma collapseSpaces_unpaired:
  assumes "\<not> isWhiteSpace l" "\<not> isWhiteSpace r" "\<not> subseq [l, r] s"
  shows "\<not> subseq [l, r] (collapseSpaces s)"
proof
  assume "subseq [l, r] (collapseSpaces s)"
  then have "subseq (filter (\<lambda>c. \<not> isWhiteSpace c) [l, r])
      (filter (\<lambda>c. \<not> isWhiteSpace c) (collapseSpaces s))"
    by (rule subseq_filter)
  then have "subseq [l, r] (filter (\<lambda>c. \<not> isWhiteSpace c) s)"
    using assms(1,2) by (simp add: collapseSpaces_nonspace)
  then have "subseq [l, r] s"
    by (rule subseq_trans' [OF _ subseq_filter_left])
  with assms(3) show False by simp
qed

lemma unpaired_subseq:
  "\<not> subseq [l, r] s \<Longrightarrow> subseq t s \<Longrightarrow> \<not> subseq [l, r] t"
  using subseq_trans' by blast

lemma cleanText_unpaired_brackets:
  "\<not> subseq [CHR ''['', CHR '']''] (cleanText text)"
proof -
  let ?t1 = "stripSpan CHR ''['' CHR '']'' text"
  let ?t2 = "stripSpan CHR ''('' CHR '')'' ?t1"
  have "\<not> subseq [CHR ''['', CHR '']''] ?t1"
    by (rule stripSpan_unpaired)
  then have "\<not> subseq [CHR ''['', CHR '']''] ?t2"
    by (rule unpaired_subseq) (rule stripSpan_subseq)
  then have "\<not> subseq [CHR ''['', CHR '']''] (removeMarkdown ?t2)"
    unfolding removeMarkdown_def by (rule unpaired_subseq) (rule subseq_filter_left)
  then have "\<not> subseq [CHR ''['', CHR '']''] (trim (removeMarkdown ?t2))"
    by (rule unpaired_subseq) (rule trim_subseq)
  then show ?thesis
    unfolding cleanText_def
    by (rule collapseSpaces_unpaired [rotated 2]) (simp_all add: isWhiteSpace_def)
qed

lemma cleanText_unpaired_parens:
  "\<not> subseq [CHR ''('', CHR '')''] (cleanText text)"
proof -
  let ?t1 = "stripSpan CHR ''['' CHR '']'' text"
  let ?t2 = "stripSpan CHR ''('' CHR '')'' ?t1"
  have "\<not> subseq [CHR ''('', CHR '')''] ?t2"
    by (rule stripSpan_unpaired)
  then have "\<not> subseq [CHR ''('', CHR '')''] (removeMarkdown ?t2)"
    unfolding removeMarkdown_def by (rule unpaired_subseq) (rule subseq_filter_left)
  then have "\<not> subseq [CHR ''('', CHR '')''] (trim (removeMarkdown ?t2))"
    by (rule unpaired_subseq) (rule trim_subseq)
  then show ?thesis
    unfolding cleanText_def
    by (rule collapseSpaces_unpaired [rotated 2]) (simp_all add: isWhiteSpace_def)
qed

lemma cleanText_no_markdown: "removeMarkdown (cleanText text) = cleanText text"
proof -
  let ?t2 = "stripSpan CHR ''('' CHR '')'' (stripSpan CHR ''['' CHR '']'' text)"
  have "set (cleanText text) \<subseteq> insert CHR '' '' (set (trim (removeMarkdown ?t2)))"
    unfolding cleanText_def by (rule collapseSpaces_set)
  moreover have "set (trim (removeMarkdown ?t2)) \<subseteq> set (removeMarkdown ?t2)"
    by (rule subseq_set_mono [OF trim_subseq])
  moreover have "\<forall>c \<in> set (removeMarkdown ?t2). \<not> isMarkdown c"
    by (simp add: removeMarkdown_def)
  moreover have "\<not> isMarkdown CHR '' ''"
    by (simp add: isMarkdown_def)
  ultimately have "\<forall>c \<in> set (cleanText text). \<not> isMarkdown c"
    by blast
  then show ?thesis
    by (simp add: removeMarkdown_def)
qed

lemma cleanText_trimmed: "trim (cleanText text) = cleanText text"
  by (simp add: cleanText_def collapseSpaces_trim [symmetric] trim_idem)

text \<open>
  Claim C10. The cleaning of \<^verbatim>\<open>generateVoiceover\<close> is idempotent: cleaning a cleaned text
  returns it unchanged, for every input string.
\<close>

theorem cleanText_idempotent: "cleanText (cleanText s) = cleanText s"
proof -
  let ?c = "cleanText s"
  have "stripSpan CHR ''['' CHR '']'' ?c = ?c"
    by (rule stripSpan_ident [OF cleanText_unpaired_brackets])
  moreover have "stripSpan CHR ''('' CHR '')'' ?c = ?c"
    by (rule stripSpan_ident [OF cleanText_unpaired_parens])
  ultimately have "cleanText ?c = collapseSpaces (trim (removeMarkdown ?c))"
    by (simp add: cleanText_def [of ?c])
  also have "\<dots> = collapseSpaces ?c"
    by (simp add: cleanText_no_markdown cleanText_trimmed)
  also have "\<dots> = ?c"
    by (simp add: cleanText_def [of s] collapseSpaces_idem)
  finally show ?thesis .
qed

text \<open>What each step of the cleaning does.\<close>

lemma stripSpan_span:
  "l \<notin> set xs \<Longrightarrow> r \<notin> set ys \<Longrightarrow>
     stripSpan l r (xs @ l # ys @ r # zs) = xs @ stripSpan l r zs"
proof (induction xs)
  case Nil
  have "dropWhile (\<lambda>x. x \<noteq> r) (ys @ r # zs) = r # zs"
    using Nil.prems(2) by (induction ys) auto
  then show ?case by simp
next
  case (Cons x xs)
  then show ?case by auto
qed

lemma dropWhile_all_append: "list_all P cs \<Longrightarrow> dropWhile P (cs @ ys) = dropWhile P ys"
  by (induction cs) simp_all

lemma collapseSpaces_run:
  assumes "ws \<noteq> []" "list_all isWhiteSpace ws" "ys = [] \<or> \<not> isWhiteSpace (hd ys)"
  shows "collapseSpaces (ws @ ys) = CHR '' '' # collapseSpaces ys"
proof -
  from assms(1) obtain c cs where ws: "ws = c # cs" by (cases ws) auto
  have "dropWhile isWhiteSpace (cs @ ys) = dropWhile isWhiteSpace ys"
    using assms(2) ws by (simp add: dropWhile_all_append)
  also have "\<dots> = ys"
    using assms(3) by (cases ys) auto
  finally show ?thesis
    using assms(2) ws by simp
qed

lemma trimEnd_core:
  assumes "list_all isWhiteSpace b" "core = [] \<or> \<not> isWhiteSpace (last core)"
  shows "trimEnd (core @ b) = core"
  using assms
proof (induction core)
  case Nil
  then show ?case by (cases b) simp_all
next
  case (Cons c core)
  have nall: "\<not> list_all isWhiteSpace ((c # core) @ b)"
    using Cons.prems(2) by (auto simp: list_all_iff split: if_splits)
  show ?case
  proof (cases "core = []")
    case True
    with Cons nall show ?thesis by simp
  next
    case False
    with Cons nall show ?thesis by simp
  qed
qed

lemma trim_core:
  assumes "list_all isWhiteSpace a" "list_all isWhiteSpace b"
    "core = [] \<or> (\<not> isWhiteSpace (hd core) \<and> \<not> isWhiteSpace (last core))"
  shows "trim (a @ core @ b) = core"
proof (cases core)
  case Nil
  have "dropWhile isWhiteSpace (a @ b) = []"
    using assms(1,2) by (simp add: dropWhile_all_append dropWhile_all del: dropWhile_eq_Nil_conv)
  with Nil show ?thesis
    by (simp add: trim_def trimStart_def del: dropWhile_eq_Nil_conv)
next
  case (Cons c cs)
  with assms(3) have "dropWhile isWhiteSpace (core @ b) = core @ b"
    by simp
  then have "dropWhile isWhiteSpace (a @ core @ b) = core @ b"
    using assms(1) by (simp add: dropWhile_all_append)
  moreover have "trimEnd (core @ b) = core"
    using assms(2,3) by (intro trimEnd_core) auto
  ultimately show ?thesis
    by (simp add: trim_def trimStart_def)
qed

lemma isWhiteSpace_chars:
  "isWhiteSpace c \<longleftrightarrow>
     c \<in> {CHR 0x09, CHR 0x0A, CHR 0x0B, CHR 0x0C, CHR 0x0D, CHR 0x20, CHR 0xA0}"
proof -
  have "isWhiteSpace c \<longleftrightarrow>
      of_char c \<in> {of_char CHR 0x09 :: nat, of_char CHR 0x0A, of_char CHR 0x0B, of_char CHR 0x0C,
        of_char CHR 0x0D, of_char CHR 0x20, of_char CHR 0xA0}"
    by (simp add: isWhiteSpace_def)
  also have "\<dots> \<longleftrightarrow>
      c \<in> {CHR 0x09, CHR 0x0A, CHR 0x0B, CHR 0x0C, CHR 0x0D, CHR 0x20, CHR 0xA0}"
    by (simp only: insert_iff empty_iff of_char_eq_iff)
  finally show ?thesis .
qed

lemma isMarkdown_chars:
  "removeMarkdown s = filter (\<lambda>c. c \<notin> {CHR ''*'', CHR ''_'', CHR ''~'', CHR 0x60}) s"
  by (simp add: removeMarkdown_def isMarkdown_def)

section \<open>Properties of the WAV encoder and the PCM decoder\<close>

lemma scaleSample_range:
  assumes "-1 \<le> s" "s \<le> 1"
  shows "-32768 \<le> scaleSample s \<and> scaleSample s \<le> 32767"
proof (cases "1/2 + s < 0")
  case True
  then have "scaleSample s = \<lceil>s * 32768\<rceil>"
    by (simp add: scaleSample_def jsTrunc_def)
  moreover have "- 32768 \<le> \<lceil>s * 32768\<rceil>"
    using assms by (simp add: le_ceiling_iff)
  moreover have "\<lceil>s * 32768\<rceil> \<le> 32767"
    using True by (simp add: ceiling_le_iff)
  ultimately show ?thesis by simp
next
  case False
  show ?thesis
  proof (cases "s < 0")
    case True
    then have "scaleSample s = \<lceil>s * 32767\<rceil>"
      using False by (simp add: scaleSample_def jsTrunc_def mult_less_0_iff)
    moreover have "- 32768 \<le> \<lceil>s * 32767\<rceil>"
      using assms by (simp add: le_ceiling_iff)
    moreover have "\<lceil>s * 32767\<rceil> \<le> 32767"
      using True by (simp add: ceiling_le_iff)
    ultimately show ?thesis by simp
  next
    case nn: False
    then have "scaleSample s = \<lfloor>s * 32767\<rfloor>"
      using False by (simp add: scaleSample_def jsTrunc_def mult_less_0_iff)
    moreover have "- 32768 \<le> \<lfloor>s * 32767\<rfloor>"
      using nn by (simp add: le_floor_iff)
    moreover have "\<lfloor>s * 32767\<rfloor> \<le> 32767"
      using assms by (simp add: floor_le_iff)
    ultimately show ?thesis by simp
  qed
qed

lemma quantum_error:
  fixes k s :: rat
  assumes "-1 \<le> s" "s \<le> 1" "s * 32767 - 1 < k" "k < s * 32767 + 1"
    "s < 0 \<longrightarrow> s * 32767 \<le> k" "0 \<le> s \<longrightarrow> k \<le> s * 32767"
  shows "\<bar>k / 32768 - s\<bar> < 1 / 16384"
proof -
  have "k - s * 32768 < 2 \<and> - 2 < k - s * 32768"
    using assms by (cases "s < 0") auto
  then show ?thesis
    by (simp add: abs_less_iff field_simps)
qed

lemma scaleSample_error:
  assumes "-1 \<le> s" "s \<le> 1"
  shows "\<bar>of_int (scaleSample s) / 32768 - s\<bar> < 1 / 16384"
proof -
  have c1: "x \<le> of_int \<lceil>x\<rceil>" and c2: "of_int \<lceil>x\<rceil> < x + 1"
    and f1: "of_int \<lfloor>x\<rfloor> \<le> x" and f2: "x < of_int \<lfloor>x\<rfloor> + 1" for x :: rat
    by linarith+
  show ?thesis
  proof (cases "1/2 + s < 0")
    case True
    then have k: "scaleSample s = \<lceil>s * 32768\<rceil>"
      by (simp add: scaleSample_def jsTrunc_def)
    have "of_int \<lceil>s * 32768\<rceil> - s * 32768 < (2::rat) \<and> - 2 < of_int \<lceil>s * 32768\<rceil> - s * 32768"
      using c1 [of "s * 32768"] c2 [of "s * 32768"] by linarith
    then show ?thesis
      unfolding k by (simp add: abs_less_iff field_simps)
  next
    case False
    show ?thesis
    proof (cases "s < 0")
      case True
      then have k: "scaleSample s = \<lceil>s * 32767\<rceil>"
        using False by (simp add: scaleSample_def jsTrunc_def mult_less_0_iff)
      show ?thesis
        unfolding k
        using c1 [of "s * 32767"] c2 [of "s * 32767"] True assms
        by (intro quantum_error) linarith+
    next
      case nn: False
      then have k: "scaleSample s = \<lfloor>s * 32767\<rfloor>"
        using False by (simp add: scaleSample_def jsTrunc_def mult_less_0_iff)
      show ?thesis
        unfolding k
        using f1 [of "s * 32767"] f2 [of "s * 32767"] nn assms
        by (intro quantum_error) linarith+
    qed
  qed
qed

lemma sint_floatTo16:
  assumes "-1 \<le> s" "s \<le> 1"
  shows "sint (floatTo16 s) = scaleSample s"
proof -
  have cl: "clampSample s = s"
    using assms by (simp add: clampSample_def)
  have "- (2 ^ 15) \<le> scaleSample s \<and> scaleSample s < 2 ^ 15"
    using scaleSample_range [OF assms] by simp
  then have "sint (word_of_int (scaleSample s) :: 16 word) = scaleSample s"
    by (simp add: sint_sbintrunc' signed_take_bit_int_eq_self)
  then show ?thesis
    by (simp add: floatTo16_def cl)
qed

lemma int16_bytes16: "int16View (bytes16 w) = [w]"
proof -
  have "int16 (ucast w) (ucast (drop_bit 8 w)) = w"
    unfolding int16_def
    by (rule bit_word_eqI) (auto simp: bit_simps)
  then show ?thesis by (simp add: bytes16_def)
qed

lemma length_writeBytes: "length (writeBytes v p bs) = length v"
  by (induction bs arbitrary: v p) simp_all

lemma length_setUint16: "length (view (setUint16 d st)) = length (view st)"
  by (simp add: setUint16_def length_writeBytes)

lemma length_setUint32: "length (view (setUint32 d st)) = length (view st)"
  by (simp add: setUint32_def length_writeBytes)

lemma length_writeHeader: "length (view (writeHeader buffer len st)) = length (view st)"
  by (simp add: writeHeader_def Let_def length_setUint16 length_setUint32)

lemma length_writeFrame_aux:
  "length (view (foldl (\<lambda>s i. s\<lparr>view := writeBytes (view s) (44 + offset s)
                               (bytes16 (sampleTo16 (channelData buffer ! i) (pos s))),
                     offset := offset s + 2\<rparr>) st is)) = length (view st)"
  by (induction "is" arbitrary: st) (simp_all add: length_writeBytes)

lemma length_writeFrame: "length (view (writeFrame buffer st)) = length (view st)"
  unfolding writeFrame_def by (rule length_writeFrame_aux)

lemma length_writeData: "length (view (writeData buffer st)) = length (view st)"
proof (induction buffer st rule: writeData.induct)
  case (1 buffer st)
  show ?case
  proof (cases "pos st < bufferLength buffer")
    case True
    then have "length (view (writeData buffer st))
        = length (view ((writeFrame buffer st)\<lparr>pos := pos st + 1\<rparr>))"
      using 1 by (simp add: writeData.simps [of buffer st])
    then show ?thesis by (simp add: length_writeFrame)
  next
    case False
    then show ?thesis by (simp add: writeData.simps [of buffer st])
  qed
qed

lemma length_getWavBlob:
  "getWavBlob (Some a) = Some wav \<Longrightarrow>
     length wav = bufferLength a * numberOfChannels a * 2 + 44"
  by (auto simp: getWavBlob_def Let_def length_writeData length_writeHeader)

lemma length_int16View: "length (int16View bs) = length bs div 2"
  by (induction bs rule: int16View.induct) simp_all

lemma decodeAudioData_odd:
  "odd (length bytes) \<Longrightarrow> decodeAudioData pf bytes rate numChannels = Inl RangeError"
  by (simp add: decodeAudioData_def Int16Array_def)

lemma decodeAudioData_no_channel:
  "even (length bytes) \<Longrightarrow> numChannels \<le> 0 \<Longrightarrow>
     decodeAudioData pf bytes rate numChannels = Inl NotSupportedError"
  by (simp add: decodeAudioData_def Int16Array_def createBuffer_def)

lemma decodeAudioData_ok:
  assumes "even (length bytes)" "1 \<le> n" "n \<le> maxChannels pf"
    "1 \<le> length bytes div 2 div n" "minSampleRate pf \<le> rate" "rate \<le> maxSampleRate pf"
  shows "\<exists>b. decodeAudioData pf bytes rate (int n) = Inr b
           \<and> numberOfChannels b = n \<and> bufferLength b = length bytes div 2 div n
           \<and> sampleRate b = rate"
proof -
  let ?fc = "length bytes div 2 div n"
  let ?b = "\<lparr>channelData =
      map (\<lambda>channel. map (\<lambda>i. of_int (sint (int16View bytes ! (i * n + channel))) / 32768)
        [0..<?fc]) [0..<n], sampleRate = rate\<rparr>"
  have up: "[0..<n] = 0 # [1..<n]"
    using assms(2) by (simp add: upt_conv_Cons)
  have "decodeAudioData pf bytes rate (int n) = Inr ?b"
    using assms
    by (simp add: decodeAudioData_def Int16Array_def createBuffer_def length_int16View Let_def)
  moreover have "numberOfChannels ?b = n"
    by (simp add: numberOfChannels_def)
  moreover have "bufferLength ?b = ?fc"
    by (simp add: bufferLength_def up del: upt_Suc)
  ultimately show ?thesis by simp
qed

lemma decode_one_sample:
  assumes "1 \<le> maxChannels pf" "minSampleRate pf \<le> rate" "rate \<le> maxSampleRate pf"
  shows "decodeAudioData pf (bytes16 w) rate 1
           = Inr \<lparr>channelData = [[of_int (sint w) / 32768]], sampleRate = rate\<rparr>"
proof -
  have "int16View (bytes16 w) = [w]" by (rule int16_bytes16)
  moreover have "length (bytes16 w) = 2" by (simp add: bytes16_def)
  ultimately show ?thesis
    using assms
    by (simp add: decodeAudioData_def Int16Array_def createBuffer_def Let_def)
qed

lemma scaleSample_spec_agree:
  "s < - 1 / 2 \<or> 0 \<le> s \<Longrightarrow> scaleSample s = scaleSample_spec s"
  by (auto simp: scaleSample_def scaleSample_spec_def)

text \<open>
  Claim C4. The encoder is to clamp each sample to [-1, 1] and scale it by 32767 when it is at
  least 0 and by 32768 when it is negative. The code takes the factor 32768 only when
  \<^verbatim>\<open>0.5 + sample < 0\<close>, that is below -1/2: at the sample -1/4 it writes -8191, where the
  conversion of the claim gives -8192.
\<close>

theorem floatTo16_negative_quarter:
  "sint (floatTo16 (- 1 / 4)) = - 8191 \<and> scaleSample_spec (clampSample (- 1 / 4)) = - 8192"
proof -
  have "\<lceil>- (32767 / 4 :: rat)\<rceil> = - 8191" by (simp add: ceiling_eq_iff)
  then show ?thesis
    by (simp add: floatTo16_def scaleSample_def scaleSample_spec_def clampSample_def jsTrunc_def)
qed

text \<open>
  Claim C7, as the code has it. A byte sequence of odd length makes the decoder fail with the
  \<^verbatim>\<open>RangeError\<close> of the typed-array constructor, and a channel count of 0 or less on a byte
  sequence of even length makes it fail with the \<^verbatim>\<open>NotSupportedError\<close> of \<^verbatim>\<open>createBuffer\<close>; in
  neither case does it succeed.
\<close>

theorem decodeAudioData_malformed:
  "(odd (length bytes) \<longrightarrow> raises ''RangeError'' (decodeAudioData pf bytes rate numChannels))
   \<and> (even (length bytes) \<and> numChannels \<le> 0 \<longrightarrow>
        raises ''NotSupportedError'' (decodeAudioData pf bytes rate numChannels))"
  by (simp add: decodeAudioData_odd decodeAudioData_no_channel raises_def RangeError_def
      NotSupportedError_def)

text \<open>
  The two cases of C7 at concrete inputs: one byte with one channel, and two bytes with no
  channel.
\<close>

theorem decodeAudioData_malformed_witness:
  "odd (length [1 :: byte]) \<and> raises ''RangeError'' (decodeAudioData testPlatform [1] 24000 1)
   \<and> even (length [1, 2 :: byte]) \<and> (0 :: int) \<le> 0
   \<and> raises ''NotSupportedError'' (decodeAudioData testPlatform [1, 2] 24000 0)"
  using decodeAudioData_malformed [of "[1]" testPlatform 24000 1]
    decodeAudioData_malformed [of "[1, 2]" testPlatform 24000 0]
  by simp

text \<open>
  Claim C7 as stated fails: on one byte, and on two bytes with no channel, the error raised is
  not a \<^verbatim>\<open>MalformedAudioError\<close>.
\<close>

theorem decodeAudioData_malformed_counterexample:
  "\<not> raises ''MalformedAudioError'' (decodeAudioData testPlatform [1] 24000 1)
   \<and> \<not> raises ''MalformedAudioError'' (decodeAudioData testPlatform [1, 2] 24000 0)"
  by (simp add: decodeAudioData_odd decodeAudioData_no_channel raises_def RangeError_def
      NotSupportedError_def)

text \<open>
  Claim C1. The round trip is to give back every sample within 1/32768. In \<^verbatim>\<open>getWavBlob\<close> the
  header writes leave \<^verbatim>\<open>pos\<close> at 44, and the data loop takes \<^verbatim>\<open>pos\<close> as the index of the frame
  to read: it starts at frame 44 and writes the frames from there on to the start of the data
  chunk. A buffer of the two frames 1/2 and -1/4 comes back as two frames of silence; of 46
  frames with 1/2 at frame 44 and -1 at frame 45, these two come back as frames 0 and 1 and the
  rest as silence.
\<close>

theorem roundTrip_drops_frames:
  "roundTrip testPlatform \<lparr>channelData = [[1 / 2, - 1 / 4]], sampleRate = 24000\<rparr>
     = Some (Inr \<lparr>channelData = [[0, 0]], sampleRate = 24000\<rparr>)
   \<and> roundTrip testPlatform
       \<lparr>channelData = [replicate 44 0 @ [1 / 2, - 1]], sampleRate = 24000\<rparr>
     = Some (Inr \<lparr>channelData = [[16383 / 32768, - 1] @ replicate 44 0], sampleRate = 24000\<rparr>)"
  by code_simp

text \<open>
  Apart from the position of the frames, the scaling by 32767 with truncation loses up to
  (1 + s)/32768 on a sample s that is not negative, while the decoder divides by 32768: of 45
  frames that are all 65537/131072, the one that is written decodes to 16383/32768, which is
  5/131072 away from it.
\<close>

lemma roundTrip_quantisation_example:
  "roundTrip testPlatform \<lparr>channelData = [replicate 45 (65537 / 131072)], sampleRate = 24000\<rparr>
     = Some (Inr \<lparr>channelData = [16383 / 32768 # replicate 44 0], sampleRate = 24000\<rparr>)
   \<and> \<not> \<bar>16383 / 32768 - 65537 / 131072\<bar> \<le> (1 / 32768 :: rat)"
  by code_simp

section \<open>Properties of the waveform\<close>

lemma length_drawBars:
  "length (drawBars samples step width i) = (width - i + 2) div 3"
proof (induction samples step width i rule: drawBars.induct)
  case (1 samples step width i)
  show ?case
  proof (cases "i < width")
    case True
    then have "length (drawBars samples step width i)
        = Suc ((width - (i + 3) + 2) div 3)"
      using 1 by (simp add: drawBars.simps [of samples step width i])
    also have "\<dots> = (width - i + 2) div 3"
      using True by presburger
    finally show ?thesis .
  next
    case False
    then show ?thesis
      by (simp add: drawBars.simps [of samples step width i])
  qed
qed

lemma scanWindow_fold_range:
  assumes "list_all (\<lambda>s. - 1 \<le> s \<and> s \<le> 1) samples"
    and "- 1 \<le> fst acc" "fst acc \<le> 1" "- 1 \<le> snd acc" "snd acc \<le> 1"
  shows "(case foldl (\<lambda>(mn, mx) j.
              if start + j < length samples
              then (let datum = samples ! (start + j)
                    in (if datum < mn then datum else mn, if datum > mx then datum else mx))
              else (mn, mx)) acc js of
           (mn, mx) \<Rightarrow> - 1 \<le> mn \<and> mn \<le> 1 \<and> - 1 \<le> mx \<and> mx \<le> 1)"
  using assms(2-)
proof (induction js arbitrary: acc)
  case Nil
  then show ?case by (cases acc) simp
next
  case (Cons j js)
  obtain mn mx where acc: "acc = (mn, mx)" by (cases acc)
  show ?case
  proof (cases "start + j < length samples")
    case True
    then have "- 1 \<le> samples ! (start + j) \<and> samples ! (start + j) \<le> 1"
      using assms(1) by (simp add: list_all_length)
    with Cons.prems acc True show ?thesis
      by (simp add: Let_def Cons.IH)
  next
    case False
    with Cons.prems acc show ?thesis
      by (simp add: Cons.IH)
  qed
qed

lemma barMagnitude_range:
  assumes "list_all (\<lambda>s. - 1 \<le> s \<and> s \<le> 1) samples"
  shows "0 \<le> barMagnitude samples step i \<and> barMagnitude samples step i \<le> 1"
proof -
  obtain mn mx where mm: "scanWindow samples (i * step) step = (mn, mx)"
    by (cases "scanWindow samples (i * step) step")
  have "case scanWindow samples (i * step) step of
          (mn, mx) \<Rightarrow> - 1 \<le> mn \<and> mn \<le> 1 \<and> - 1 \<le> mx \<and> mx \<le> 1"
    unfolding scanWindow_def by (rule scanWindow_fold_range [OF assms]) simp_all
  then have "- 1 \<le> mn \<and> mn \<le> 1 \<and> - 1 \<le> mx \<and> mx \<le> 1"
    by (simp add: mm)
  then show ?thesis
    by (auto simp: barMagnitude_def mm abs_le_iff)
qed

lemma drawBars_range:
  "list_all (\<lambda>s. - 1 \<le> s \<and> s \<le> 1) samples \<Longrightarrow>
     list_all (\<lambda>m. 0 \<le> m \<and> m \<le> 1) (drawBars samples step width i)"
proof (induction samples step width i rule: drawBars.induct)
  case (1 samples step width i)
  show ?case
  proof (cases "i < width")
    case True
    with 1 barMagnitude_range [OF "1.prems", of step i] show ?thesis
      by (simp add: drawBars.simps [of samples step width i])
  next
    case False
    then show ?thesis
      by (simp add: drawBars.simps [of samples step width i])
  qed
qed

text \<open>
  Claim C8, amended. For a buffer with samples in [-1, 1] and a pixel width w the waveform has
  one magnitude for each bar slot of three pixels, that is (w + 2) div 3 magnitudes, whatever
  the number of samples (none included); every magnitude lies in [0, 1]; and with no buffer
  nothing is drawn. The function is total: no input makes it fail.
\<close>

theorem drawWaveform_bars:
  assumes "list_all (list_all (\<lambda>s. - 1 \<le> s \<and> s \<le> 1)) (channelData b)"
  shows "length (drawWaveform (Some b) width) = (width + 2) div 3
       \<and> list_all (\<lambda>m. 0 \<le> m \<and> m \<le> 1) (drawWaveform (Some b) width)
       \<and> drawWaveform None width = []"
proof -
  have "list_all (\<lambda>s. - 1 \<le> s \<and> s \<le> 1) (case channelData b of [] \<Rightarrow> [] | c # _ \<Rightarrow> c)"
    using assms by (cases "channelData b") simp_all
  then show ?thesis
    by (simp add: drawWaveform_def Let_def length_drawBars drawBars_range)
qed

text \<open>
  C8 at a concrete buffer: two samples at width 100 give 34 magnitudes.
\<close>

theorem drawWaveform_bars_witness:
  "list_all (list_all (\<lambda>s. - 1 \<le> s \<and> s \<le> 1)) [[1 / 2, - 1 / 4 :: rat]]
   \<and> length (drawWaveform (Some \<lparr>channelData = [[1 / 2, - 1 / 4]], sampleRate = 24000\<rparr>) 100) = 34
   \<and> list_all (\<lambda>m. 0 \<le> m \<and> m \<le> 1)
        (drawWaveform (Some \<lparr>channelData = [[1 / 2, - 1 / 4]], sampleRate = 24000\<rparr>) 100)"
proof -
  let ?b = "\<lparr>channelData = [[1 / 2, - 1 / 4 :: rat]], sampleRate = 24000\<rparr>"
  have rng: "list_all (list_all (\<lambda>s. - 1 \<le> s \<and> s \<le> 1)) (channelData ?b)"
    by simp
  from drawWaveform_bars [OF rng, of 100] show ?thesis
    by simp
qed

text \<open>
  Claim C8 as stated fails: six samples at width 6 give two magnitudes, not six; and a channel
  with no samples at width 3 gives one magnitude, the 1 that the initial values of \<^verbatim>\<open>min\<close> and
  \<^verbatim>\<open>max\<close> leave when the window is empty, not an empty output.
\<close>

theorem drawWaveform_bars_counterexample:
  "drawWaveform (Some \<lparr>channelData = [[1 / 2, - 1 / 4, 1 / 8, 0, 0, 0]], sampleRate = 24000\<rparr>) 6
     = [1 / 2, 0]
   \<and> drawWaveform (Some \<lparr>channelData = [[]], sampleRate = 24000\<rparr>) 3 = [1]"
  by code_simp

lemma drawWaveform_width_100:
  "length (drawWaveform (Some b) 100) = 34"
  by (simp add: drawWaveform_def Let_def length_drawBars)

section \<open>Properties of the playback engine\<close>

text \<open>
  Claim C3, amended. With an audio context and no \<^verbatim>\<open>ended\<close> event waiting, \<^verbatim>\<open>play\<close> at rate r
  at time t0 followed by \<^verbatim>\<open>pause\<close> at time t1 stores, in double precision, the previous
  offset plus the elapsed time t1 - t0 times r, and the stop raises the \<^verbatim>\<open>ended\<close> event of
  the source. When that event has been handled at time te, the next \<^verbatim>\<open>play\<close> starts its source
  at exactly the stored offset, unless the handler's check (elapsed time plus 0.1 at least the
  remaining duration at rate r) took the stop for the natural end: then the offset was reset
  and the source starts at 0. From the stopped state the previous offset is 0.
\<close>

theorem pause_then_play:
  fixes st :: player and b :: AudioBuffer and r t0 t1 te t2 :: rat
  defines "s2 \<equiv> pause r t1 (play (Some b) r t0 st)"
  defines "natural \<equiv> fl (fl (te - t0) + fl (1 / 10))
                        \<ge> fl (fl (bufferDuration b / r) - fl (pausedAt st / r))"
  assumes ctx: "hasContext st" and none: "ended st = []"
  shows "pausedAt s2 = fl (pausedAt st + fl (fl (t1 - t0) * r))
       \<and> ended s2 = [\<lparr>nodeBuffer = b, startOffset = pausedAt st, playbackRate = r\<rparr>]
       \<and> (\<not> natural \<longrightarrow>
            sourceRef (play (Some b) r t2 (handleEnded te s2))
              = Some \<lparr>nodeBuffer = b, startOffset = pausedAt s2, playbackRate = r\<rparr>)
       \<and> (natural \<longrightarrow>
            sourceRef (play (Some b) r t2 (handleEnded te s2))
              = Some \<lparr>nodeBuffer = b, startOffset = 0, playbackRate = r\<rparr>)
       \<and> startTime (play (Some b) r t2 (handleEnded te s2)) = t2"
  using ctx none
  by (simp add: s2_def natural_def play_def pause_def handleEnded_def onended_def Let_def)

lemma fl_values:
  "fl (1 / 2) = 1 / 2" "fl (3 / 4) = 3 / 4" "fl (31 / 32) = 31 / 32" "fl 1 = 1" "fl 2 = 2"
  by code_simp+

lemma duration_silence: "duration (silence n) = of_nat n / 24000"
  by (simp add: duration_def silence_def bufferLength_def)

text \<open>
  C3 from the stopped state: a buffer of 2 seconds played at rate 3/2 from time 10 and paused
  at 10.5 stores the offset 3/4; the event handled at 10.5 leaves it, and the next play starts
  at 3/4.
\<close>

theorem pause_then_play_witness:
  "hasContext stopped0 \<and> ended stopped0 = []
   \<and> \<not> fl (fl (21 / 2 - 10) + fl (1 / 10))
         \<ge> fl (fl (bufferDuration (silence 48000) / (3 / 2)) - fl (pausedAt stopped0 / (3 / 2)))
   \<and> pausedAt (pause (3 / 2) (21 / 2) (play (Some (silence 48000)) (3 / 2) 10 stopped0)) = 3 / 4
   \<and> sourceRef (play (Some (silence 48000)) (3 / 2) 12 (handleEnded (21 / 2)
         (pause (3 / 2) (21 / 2) (play (Some (silence 48000)) (3 / 2) 10 stopped0))))
       = Some \<lparr>nodeBuffer = silence 48000, startOffset = 3 / 4, playbackRate = 3 / 2\<rparr>"
proof -
  have ctx: "hasContext stopped0" and none: "ended stopped0 = []" and p0: "pausedAt stopped0 = 0"
    by (simp_all add: stopped0_def)
  have d: "bufferDuration (silence 48000) = 2"
    by (simp add: bufferDuration_def duration_silence fl_values)
  have "fl (fl (21 / 2 - 10) + fl (1 / 10)) < fl (fl (2 / (3 / 2)) - fl (0 / (3 / 2)))"
    by code_simp
  then have nn: "\<not> fl (fl (21 / 2 - 10) + fl (1 / 10))
         \<ge> fl (fl (bufferDuration (silence 48000) / (3 / 2)) - fl (pausedAt stopped0 / (3 / 2)))"
    by (simp only: d p0 not_le)
  have v: "fl (pausedAt stopped0 + fl (fl (21 / 2 - 10) * (3 / 2))) = 3 / 4"
    unfolding p0 by code_simp
  note t = pause_then_play [OF ctx none, where b = "silence 48000" and r = "3 / 2" and ?t0.0 = 10
      and ?t1.0 = "21 / 2" and te = "21 / 2" and ?t2.0 = 12]
  from t have a: "pausedAt (pause (3 / 2) (21 / 2) (play (Some (silence 48000)) (3 / 2) 10 stopped0))
      = fl (pausedAt stopped0 + fl (fl (21 / 2 - 10) * (3 / 2)))"
    by blast
  from t nn have b: "sourceRef (play (Some (silence 48000)) (3 / 2) 12 (handleEnded (21 / 2)
         (pause (3 / 2) (21 / 2) (play (Some (silence 48000)) (3 / 2) 10 stopped0))))
       = Some \<lparr>nodeBuffer = silence 48000,
           startOffset = pausedAt (pause (3 / 2) (21 / 2)
             (play (Some (silence 48000)) (3 / 2) 10 stopped0)),
           playbackRate = 3 / 2\<rparr>"
    by blast
  show ?thesis
    using ctx none nn a b by (simp only: v) simp
qed

text \<open>
  Claim C3 as stated fails. A buffer of 1 second played at rate 1 from time 0 and paused at
  31/32 stores the offset 31/32; the handler of the \<^verbatim>\<open>ended\<close> event, run at that time, finds
  31/32 + 0.1 to be at least 1 and resets the offset, and the next play starts at 0.
\<close>

theorem pause_then_play_counterexample:
  "pausedAt (pause 1 (31 / 32) (play (Some (silence 24000)) 1 0 stopped0)) = 31 / 32
   \<and> sourceRef (play (Some (silence 24000)) 1 2 (handleEnded (31 / 32)
         (pause 1 (31 / 32) (play (Some (silence 24000)) 1 0 stopped0))))
       = Some \<lparr>nodeBuffer = silence 24000, startOffset = 0, playbackRate = 1\<rparr>"
proof -
  have d: "bufferDuration (silence 24000) = 1"
    by (simp add: bufferDuration_def duration_silence fl_values)
  have n: "fl (fl (31 / 32) + fl (1 / 10)) \<ge> fl (fl 1 - fl 0)"
    by code_simp
  show ?thesis
    using n by (simp add: stopped0_def play_def pause_def handleEnded_def onended_def Let_def d
        fl_values)
qed

text \<open>
  The comparison of the handler is one of doubles: for 805 frames at 3200 Hz and rate 7/8 the
  event handled 3/16 after the start leaves the offset, since 3/16 + 0.1 rounds to a double
  below the rounded quotient of the duration and the rate.
\<close>

lemma onended_rounding_example:
  "onended \<lparr>channelData = [replicate 805 0], sampleRate = 3200\<rparr> 0 (7 / 8) (3 / 16)
     (stopped0\<lparr>pausedAt := 1 / 8\<rparr>) = stopped0\<lparr>pausedAt := 1 / 8\<rparr>"
proof -
  have "\<not> fl (fl (3 / 16 - 0) + fl (1 / 10)) \<ge> fl (fl (fl (805 / 3200) / (7 / 8)) - fl (0 / (7 / 8)))"
    by code_simp
  then show ?thesis
    by (simp add: onended_def Let_def bufferDuration_def duration_def bufferLength_def
        stopped0_def)
qed

section \<open>Properties of the speech synthesis client\<close>

lemma attempt_requests: "requests (snd (attempt pf be req w)) = requests w @ [req]"
  by (simp add: attempt_def generateContent_def split_beta Let_def)

lemma tryPrompts_requests:
  "\<exists>k \<le> length ps. requests (snd (tryPrompts pf be voice ps lastError w))
      = requests w @ map (\<lambda>p. \<lparr>promptText = p, voiceName = voice\<rparr>) (take k ps)"
proof (induction ps arbitrary: lastError w)
  case Nil
  show ?case by (cases lastError) simp_all
next
  case (Cons p ps)
  let ?req = "\<lparr>promptText = p, voiceName = voice\<rparr>"
  obtain r w' where a: "attempt pf be ?req w = (r, w')"
    by (cases "attempt pf be ?req w")
  then have rq: "requests w' = requests w @ [?req]"
    using attempt_requests [of pf be ?req w] by simp
  show ?case
  proof (cases r)
    case (Inr audio)
    with a rq have "requests (snd (tryPrompts pf be voice (p # ps) lastError w))
        = requests w @ map (\<lambda>p. \<lparr>promptText = p, voiceName = voice\<rparr>) (take 1 (p # ps))"
      by simp
    then show ?thesis
      by (intro exI [of _ 1]) simp
  next
    case (Inl e)
    from Cons.IH [of "Some e" w'] obtain k where k: "k \<le> length ps"
      "requests (snd (tryPrompts pf be voice ps (Some e) w'))
         = requests w' @ map (\<lambda>p. \<lparr>promptText = p, voiceName = voice\<rparr>) (take k ps)"
      by blast
    with a rq Inl have "requests (snd (tryPrompts pf be voice (p # ps) lastError w))
        = requests w @ map (\<lambda>p. \<lparr>promptText = p, voiceName = voice\<rparr>) (take (Suc k) (p # ps))"
      by simp
    with k(1) show ?thesis
      by (intro exI [of _ "Suc k"]) simp
  qed
qed


lemma generateVoiceover_three:
  assumes "getClient pf = Inr ()" "cleanText text \<noteq> []"
  shows "generateVoiceover pf be text config w =
     (case attempt pf be (request config (prompts config (cleanText text) ! 0)) w of
        (Inr a, w1) \<Rightarrow> (Inr a, w1)
      | (Inl e1, w1) \<Rightarrow>
         (case attempt pf be (request config (prompts config (cleanText text) ! 1)) w1 of
            (Inr a, w2) \<Rightarrow> (Inr a, w2)
          | (Inl e2, w2) \<Rightarrow>
             (case attempt pf be (request config (prompts config (cleanText text) ! 2)) w2 of
                (Inr a, w3) \<Rightarrow> (Inr a, w3)
              | (Inl e3, w3) \<Rightarrow> (Inl e3, w3))))"
  using assms
  by (simp add: generateVoiceover_def Let_def prompts_def request_def
      split: prod.splits sum.splits)



text \<open>
  Claim C6, as the code has it. When all three attempts fail, \<^verbatim>\<open>generateVoiceover\<close> fails
  with the error of the third attempt, which it rethrows as it is.
\<close>

theorem generateVoiceover_exhausted:
  fixes pf :: platform and be :: "'s backend" and w :: "'s world"
    and inp :: string and config :: VoiceConfig
  defines "ps \<equiv> prompts config (cleanText inp)"
  defines "a1 \<equiv> attempt pf be (request config (ps ! 0)) w"
  defines "a2 \<equiv> attempt pf be (request config (ps ! 1)) (snd a1)"
  defines "a3 \<equiv> attempt pf be (request config (ps ! 2)) (snd a2)"
  assumes key: "getClient pf = Inr ()" and ne: "cleanText inp \<noteq> []"
    and f1: "fst a1 = Inl e1" and f2: "fst a2 = Inl e2" and f3: "fst a3 = Inl e3"
  shows "generateVoiceover pf be inp config w = (Inl e3, snd a3)"
  using generateVoiceover_three [OF key ne, of be config w, folded ps_def, folded a1_def]
    f1 f2 f3
  by (simp add: split_beta a2_def a3_def)

text \<open>
  C6 against a service that fails three times, with three different errors: the failure is
  the third error, after three requests.
\<close>

theorem generateVoiceover_exhausted_witness:
  "getClient testPlatform = Inr () \<and> cleanText ''Hi'' \<noteq> []
   \<and> generateVoiceover testPlatform failThrice ''Hi'' testConfig world0
       = (Inl (Error ''third''),
          \<lparr>requests = map (request testConfig)
             [''Say with a Indian English accent and Friendly tone: Hi'',
              ''Read the following text aloud: Hi'', ''Hi''],
           service = 3\<rparr>)"
proof -
  let ?ps = "prompts testConfig (cleanText ''Hi'')"
  let ?a1 = "attempt testPlatform failThrice (request testConfig (?ps ! 0)) world0"
  let ?a2 = "attempt testPlatform failThrice (request testConfig (?ps ! 1)) (snd ?a1)"
  let ?a3 = "attempt testPlatform failThrice (request testConfig (?ps ! 2)) (snd ?a2)"
  have key: "getClient testPlatform = Inr ()" by code_simp
  have ne: "cleanText ''Hi'' \<noteq> []" by code_simp
  have f1: "fst ?a1 = Inl (Error ''first'')" by code_simp
  have f2: "fst ?a2 = Inl (Error ''second'')" by code_simp
  have f3: "fst ?a3 = Inl (Error ''third'')" by code_simp
  have s3: "snd ?a3 = \<lparr>requests = map (request testConfig)
             [''Say with a Indian English accent and Friendly tone: Hi'',
              ''Read the following text aloud: Hi'', ''Hi''],
           service = 3\<rparr>" by code_simp
  from generateVoiceover_exhausted [OF key ne f1 f2 f3] key ne show ?thesis
    by (simp only: s3) simp
qed

text \<open>
  Claim C6 as stated fails: against the same service the error raised is the plain
  \<^verbatim>\<open>Error\<close> of the third attempt, with no cause of its own, and not a
  \<^verbatim>\<open>SynthesisFailedError\<close> around it.
\<close>

theorem generateVoiceover_exhausted_counterexample:
  "fst (generateVoiceover testPlatform failThrice ''Hi'' testConfig world0)
     = Inl (JSError ''Error'' ''third'' None)
   \<and> \<not> raises ''SynthesisFailedError''
         (fst (generateVoiceover testPlatform failThrice ''Hi'' testConfig world0))"
  by code_simp

lemma tryPrompts_requests_pos:
  assumes "ps \<noteq> []"
  shows "\<exists>k. 1 \<le> k \<and> k \<le> length ps
          \<and> requests (snd (tryPrompts pf be voice ps lastError w))
              = requests w @ map (\<lambda>p. \<lparr>promptText = p, voiceName = voice\<rparr>) (take k ps)"
proof -
  from assms obtain p ps' where ps: "ps = p # ps'" by (cases ps) auto
  let ?req = "\<lparr>promptText = p, voiceName = voice\<rparr>"
  obtain r w' where a: "attempt pf be ?req w = (r, w')"
    by (cases "attempt pf be ?req w")
  then have rq: "requests w' = requests w @ [?req]"
    using attempt_requests [of pf be ?req w] by simp
  show ?thesis
  proof (cases r)
    case (Inr audio)
    with a rq ps have "requests (snd (tryPrompts pf be voice ps lastError w))
        = requests w @ map (\<lambda>p. \<lparr>promptText = p, voiceName = voice\<rparr>) (take 1 ps)"
      by simp
    then show ?thesis
      using ps by (intro exI [of _ 1]) simp
  next
    case (Inl e)
    from tryPrompts_requests [of ps' pf be voice "Some e" w'] obtain k where k: "k \<le> length ps'"
      "requests (snd (tryPrompts pf be voice ps' (Some e) w'))
         = requests w' @ map (\<lambda>p. \<lparr>promptText = p, voiceName = voice\<rparr>) (take k ps')"
      by blast
    with a rq Inl ps have "requests (snd (tryPrompts pf be voice ps lastError w))
        = requests w @ map (\<lambda>p. \<lparr>promptText = p, voiceName = voice\<rparr>) (take (Suc k) ps)"
      by simp
    with k(1) ps show ?thesis
      by (intro exI [of _ "Suc k"]) simp
  qed
qed

lemma generateVoiceover_sends:
  assumes "getClient pf = Inr ()" "cleanText inp \<noteq> []"
  shows "\<exists>k. 1 \<le> k \<and> k \<le> 3
          \<and> requests (snd (generateVoiceover pf be inp config w))
              = requests w @ map (request config) (take k (prompts config (cleanText inp)))"
proof -
  have l: "length (prompts config (cleanText inp)) = 3"
    by (simp add: prompts_def)
  then have "prompts config (cleanText inp) \<noteq> []"
    by auto
  from tryPrompts_requests_pos [OF this, of pf be "voiceFor config" None w]
  show ?thesis
    using assms by (simp add: generateVoiceover_def Let_def request_def [abs_def] l)
qed

lemma generateVoiceover_empty:
  "cleanText inp = [] \<Longrightarrow> snd (generateVoiceover pf be inp config w) = w"
  by (simp add: generateVoiceover_def Let_def split: sum.splits)

text \<open>
  Claim C5. The cleaned text is the input after these steps, in this order: the removal of the
  bracket-delimited spans, of the parenthesis-delimited spans and of the markdown markers, the
  collapse of white space, and the trim. A span runs from an opening delimiter to the first
  closing delimiter behind it, and a text without such a pair is left as it is; the markers are
  the four characters * _ ~ and the backquote; white space is tab, line feed, vertical tab, form
  feed, carriage return, space and no-break space; every maximal run of white space collapses
  to one space and every other character stays; the trim drops the white space at both ends.
  \<^verbatim>\<open>[Close up] Hi *there*! (whisper)\<close> cleans to \<^verbatim>\<open>Hi there!\<close>. The three prompts are built
  from the cleaned text; with an API key and a non-empty cleaned text at least one and at
  most three of them are sent, in order, and with an empty cleaned text nothing is sent.
\<close>

theorem cleanText_preprocessing:
  fixes inp :: string and pf :: platform and be :: "'s backend" and w :: "'s world"
    and config :: VoiceConfig
  shows "cleanText inp
           = trim (collapseSpaces (removeMarkdown
               (stripSpan CHR ''('' CHR '')'' (stripSpan CHR ''['' CHR '']'' inp))))
       \<and> (l \<notin> set xs \<and> r \<notin> set ys \<longrightarrow>
            stripSpan l r (xs @ l # ys @ r # zs) = xs @ stripSpan l r zs)
       \<and> (\<not> subseq [l, r] s \<longrightarrow> stripSpan l r s = s)
       \<and> removeMarkdown s = filter (\<lambda>c. c \<notin> {CHR ''*'', CHR ''_'', CHR ''~'', CHR 0x60}) s
       \<and> (isWhiteSpace c \<longleftrightarrow>
            c \<in> {CHR 0x09, CHR 0x0A, CHR 0x0B, CHR 0x0C, CHR 0x0D, CHR 0x20, CHR 0xA0})
       \<and> collapseSpaces [] = []
       \<and> (\<not> isWhiteSpace c \<longrightarrow> collapseSpaces (c # s) = c # collapseSpaces s)
       \<and> (run \<noteq> [] \<and> list_all isWhiteSpace run \<and> (s = [] \<or> \<not> isWhiteSpace (hd s)) \<longrightarrow>
            collapseSpaces (run @ s) = CHR '' '' # collapseSpaces s)
       \<and> (list_all isWhiteSpace a \<and> list_all isWhiteSpace b
            \<and> (core = [] \<or> (\<not> isWhiteSpace (hd core) \<and> \<not> isWhiteSpace (last core))) \<longrightarrow>
            trim (a @ core @ b) = core)
       \<and> cleanText ''[Close up] Hi *there*! (whisper)'' = ''Hi there!''
       \<and> prompts config (cleanText inp)
           = [''Say with a '' @ accentString (accent config) @ '' accent and ''
                @ toneString (tone config) @ '' tone: '' @ cleanText inp,
              ''Read the following text aloud: '' @ cleanText inp,
              cleanText inp]
       \<and> (getClient pf = Inr () \<and> cleanText inp \<noteq> [] \<longrightarrow>
            (\<exists>k. 1 \<le> k \<and> k \<le> 3
               \<and> requests (snd (generateVoiceover pf be inp config w))
                   = requests w @ map (request config) (take k (prompts config (cleanText inp)))))
       \<and> (cleanText inp = [] \<longrightarrow> snd (generateVoiceover pf be inp config w) = w)"
proof -
  have "cleanText inp
           = trim (collapseSpaces (removeMarkdown
               (stripSpan CHR ''('' CHR '')'' (stripSpan CHR ''['' CHR '']'' inp))))"
    by (simp add: cleanText_def collapseSpaces_trim)
  moreover have "cleanText ''[Close up] Hi *there*! (whisper)'' = ''Hi there!''"
    by (simp add: cleanText_def removeMarkdown_def isMarkdown_def trim_def trimStart_def
        isWhiteSpace_def)
  moreover have "prompts config (cleanText inp)
           = [''Say with a '' @ accentString (accent config) @ '' accent and ''
                @ toneString (tone config) @ '' tone: '' @ cleanText inp,
              ''Read the following text aloud: '' @ cleanText inp,
              cleanText inp]"
    by (simp add: prompts_def)
  moreover have "collapseSpaces (run @ s) = CHR '' '' # collapseSpaces s"
    if "run \<noteq> []" "list_all isWhiteSpace run" "s = [] \<or> \<not> isWhiteSpace (hd s)"
    using that by (rule collapseSpaces_run)
  moreover have "trim (a @ core @ b) = core"
    if "list_all isWhiteSpace a" "list_all isWhiteSpace b"
      "core = [] \<or> (\<not> isWhiteSpace (hd core) \<and> \<not> isWhiteSpace (last core))"
    using that by (rule trim_core)
  moreover have "removeMarkdown s = filter (\<lambda>c. c \<notin> {CHR ''*'', CHR ''_'', CHR ''~'', CHR 0x60}) s"
    by (rule isMarkdown_chars)
  moreover note isWhiteSpace_chars [of c]
  ultimately show ?thesis
    using stripSpan_span [of l xs r ys zs] stripSpan_ident [of l r s]
      generateVoiceover_sends [of pf inp be config w]
      generateVoiceover_empty [of inp pf be config w]
    by (simp del: insert_iff)
qed

text \<open>
  C5 at concrete inputs: a bracketed span between two letters, a text without brackets, a run
  of a space and a line feed, a text with white space at both ends, a request sequence for the
  text \<^verbatim>\<open>Hi\<close>, and the text \<^verbatim>\<open>[x]\<close>, which is empty once cleaned.
\<close>

theorem cleanText_preprocessing_witness:
  "CHR ''['' \<notin> set ''a'' \<and> CHR '']'' \<notin> set ''b''
   \<and> stripSpan CHR ''['' CHR '']'' (''a'' @ CHR ''['' # ''b'' @ CHR '']'' # ''c'')
       = ''a'' @ stripSpan CHR ''['' CHR '']'' ''c''
   \<and> \<not> subseq [CHR ''['', CHR '']''] ''de''
   \<and> stripSpan CHR ''['' CHR '']'' ''de'' = ''de''
   \<and> \<not> isWhiteSpace CHR ''x''
   \<and> collapseSpaces (CHR ''x'' # ''de'') = CHR ''x'' # collapseSpaces ''de''
   \<and> list_all isWhiteSpace [CHR '' '', CHR 0x0A]
   \<and> collapseSpaces ([CHR '' '', CHR 0x0A] @ ''de'') = CHR '' '' # collapseSpaces ''de''
   \<and> trim ([CHR 0x09] @ ''hi'' @ [CHR '' '', CHR 0x0A]) = ''hi''
   \<and> getClient testPlatform = Inr () \<and> cleanText ''Hi'' \<noteq> []
   \<and> (\<exists>k. 1 \<le> k \<and> k \<le> 3
         \<and> requests (snd (generateVoiceover testPlatform failTwice ''Hi'' testConfig world0))
             = requests world0
                 @ map (request testConfig) (take k (prompts testConfig (cleanText ''Hi''))))
   \<and> cleanText ''[x]'' = []
   \<and> snd (generateVoiceover testPlatform failTwice ''[x]'' testConfig world0) = world0"
proof -
  have h1: "CHR ''['' \<notin> set ''a''" "CHR '']'' \<notin> set ''b''" by simp_all
  have h2: "\<not> subseq [CHR ''['', CHR '']''] ''de''" by simp
  have h3: "\<not> isWhiteSpace CHR ''x''" by (simp add: isWhiteSpace_def)
  have h4: "[CHR '' '', CHR 0x0A] \<noteq> []" "list_all isWhiteSpace [CHR '' '', CHR 0x0A]"
    "''de'' = [] \<or> \<not> isWhiteSpace (hd ''de'')"
    by (simp_all add: isWhiteSpace_def)
  have h5: "list_all isWhiteSpace [CHR 0x09]" "list_all isWhiteSpace [CHR '' '', CHR 0x0A]"
    "''hi'' = [] \<or> (\<not> isWhiteSpace (hd ''hi'') \<and> \<not> isWhiteSpace (last ''hi''))"
    by (simp_all add: isWhiteSpace_def)
  have h6: "getClient testPlatform = Inr ()" "cleanText ''Hi'' \<noteq> []" by code_simp+
  have h7: "cleanText ''[x]'' = []" by code_simp
  note t1 = cleanText_preprocessing [where l = "CHR ''[''" and r = "CHR '']''" and xs = "''a''"
      and ys = "''b''" and zs = "''c''" and s = "''de''" and c = "CHR ''x''"
      and run = "[CHR '' '', CHR 0x0A]" and a = "[CHR 0x09]" and core = "''hi''"
      and b = "[CHR '' '', CHR 0x0A]" and inp = "''Hi''" and pf = testPlatform
      and be = failTwice and config = testConfig and w = world0]
  note t2 = cleanText_preprocessing [where inp = "''[x]''" and pf = testPlatform
      and be = failTwice and config = testConfig and w = world0]
  note s2 = t1 [THEN conjunct2]
  note s3 = s2 [THEN conjunct2]
  note s7 = s3 [THEN conjunct2, THEN conjunct2, THEN conjunct2, THEN conjunct2]
  note s8 = s7 [THEN conjunct2]
  note s9 = s8 [THEN conjunct2]
  note s12 = s9 [THEN conjunct2, THEN conjunct2, THEN conjunct2]
  note e13 = t2 [THEN conjunct2, THEN conjunct2, THEN conjunct2, THEN conjunct2,
      THEN conjunct2, THEN conjunct2, THEN conjunct2, THEN conjunct2, THEN conjunct2,
      THEN conjunct2, THEN conjunct2, THEN conjunct2]
  have c1: "stripSpan CHR ''['' CHR '']'' (''a'' @ CHR ''['' # ''b'' @ CHR '']'' # ''c'')
       = ''a'' @ stripSpan CHR ''['' CHR '']'' ''c''"
    by (rule mp [OF s2 [THEN conjunct1]]) (rule conjI [OF h1])
  have c2: "stripSpan CHR ''['' CHR '']'' ''de'' = ''de''"
    by (rule mp [OF s3 [THEN conjunct1]]) (rule h2)
  have c3: "collapseSpaces (CHR ''x'' # ''de'') = CHR ''x'' # collapseSpaces ''de''"
    by (rule mp [OF s7 [THEN conjunct1]]) (rule h3)
  have c4: "collapseSpaces ([CHR '' '', CHR 0x0A] @ ''de'')
      = CHR '' '' # collapseSpaces ''de''"
    by (rule mp [OF s8 [THEN conjunct1]]) (intro conjI h4)
  have c5: "trim ([CHR 0x09] @ ''hi'' @ [CHR '' '', CHR 0x0A]) = ''hi''"
    by (rule mp [OF s9 [THEN conjunct1]]) (intro conjI h5)
  have c6: "\<exists>k. 1 \<le> k \<and> k \<le> 3
         \<and> requests (snd (generateVoiceover testPlatform failTwice ''Hi'' testConfig world0))
             = requests world0
                 @ map (request testConfig) (take k (prompts testConfig (cleanText ''Hi'')))"
    by (rule mp [OF s12 [THEN conjunct1]]) (intro conjI h6)
  have c7: "snd (generateVoiceover testPlatform failTwice ''[x]'' testConfig world0)
      = world0"
    by (rule mp [OF e13]) (rule h7)
  show ?thesis
    by (intro conjI h1 h2 h3 h4(2) h6 h7 c1 c2 c3 c4 c5 c6 c7)
qed

section \<open>Properties of the batch synthesis driver\<close>

lemma updateSegment_other:
  "\<forall>s \<in> set xs. segId s \<noteq> sid \<Longrightarrow> updateSegment sid f xs = xs"
  by (induction xs) (simp_all add: updateSegment_def)

lemma updateSegment_append:
  "updateSegment sid f (xs @ ys) = updateSegment sid f xs @ updateSegment sid f ys"
  by (simp add: updateSegment_def)

lemma updateSegment_Cons:
  "updateSegment sid f (x # xs) = (if segId x = sid then f x else x) # updateSegment sid f xs"
  by (simp add: updateSegment_def)

lemma segId_enumerate:
  "\<forall>s \<in> set (map (\<lambda>(idx, t). newSegment idx t) (enumerate j ts)). j \<le> segId s"
  by (auto simp: in_set_enumerate_eq newSegment_def)

lemma updateSegment_middle:
  assumes "\<forall>s \<in> set pre. segId s < i"
  shows "updateSegment i f (pre @ x # map (\<lambda>(idx, t). newSegment idx t) (enumerate (Suc i) ts))
       = pre @ (if segId x = i then f x else x)
           # map (\<lambda>(idx, t). newSegment idx t) (enumerate (Suc i) ts)"
proof -
  have "updateSegment i f pre = pre"
    using assms by (intro updateSegment_other) auto
  moreover have "updateSegment i f (map (\<lambda>(idx, t). newSegment idx t) (enumerate (Suc i) ts))
      = map (\<lambda>(idx, t). newSegment idx t) (enumerate (Suc i) ts)"
    using segId_enumerate [of "Suc i" ts] by (intro updateSegment_other) auto
  ultimately show ?thesis
    by (simp add: updateSegment_append updateSegment_Cons)
qed

lemma scenesLoop_completed:
  "generateVoiceover pf be (segText segment) config w = (Inr buffer, w') \<Longrightarrow>
   scenesLoop pf be config i (segment # rest) (st, w)
     = scenesLoop pf be config (Suc i) rest
         (st\<lparr>segments :=
              updateSegment (segId segment)
                (\<lambda>s. s\<lparr>segAudio := Some buffer, segStatus := completed\<rparr>)
                (updateSegment (segId segment) (\<lambda>s. s\<lparr>segStatus := generating\<rparr>)
                   (segments st)),
             audioBuffer := (if i = 0 then Some buffer else audioBuffer st)\<rparr>, w')"
  by (cases "i = 0") (simp_all add: Let_def)

lemma scenesLoop_failed:
  "generateVoiceover pf be (segText segment) config w = (Inl e, w') \<Longrightarrow>
   scenesLoop pf be config i (segment # rest) (st, w)
     = scenesLoop pf be config (Suc i) rest
         (st\<lparr>segments :=
              updateSegment (segId segment) (\<lambda>s. s\<lparr>segStatus := error\<rparr>)
                (updateSegment (segId segment) (\<lambda>s. s\<lparr>segStatus := generating\<rparr>)
                   (segments st))\<rparr>, w')"
  by (simp add: Let_def)

lemma scenesLoop_run:
  assumes "segments st = pre @ map (\<lambda>(idx, t). newSegment idx t) (enumerate i ts)"
    and "\<forall>s \<in> set pre. segId s < i"
  shows "scenesLoop pf be config i (map (\<lambda>(idx, t). newSegment idx t) (enumerate i ts)) (st, w)
       = (st\<lparr>segments := pre @ finishedSegments i ts
                  (fst (synthesizeAll pf be config (map trim ts) w)),
              audioBuffer := (if i = 0
                              then (case firstAudio
                                      (fst (synthesizeAll pf be config (map trim ts) w)) of
                                      Some buffer \<Rightarrow> Some buffer
                                    | None \<Rightarrow> audioBuffer st)
                              else audioBuffer st)\<rparr>,
          snd (synthesizeAll pf be config (map trim ts) w))"
  using assms
proof (induction ts arbitrary: i pre st w)
  case Nil
  then show ?case by (simp add: firstAudio_def)
next
  case (Cons t ts)
  let ?rest = "map (\<lambda>(idx, t). newSegment idx t) (enumerate (Suc i) ts)"
  obtain r w' where gv: "generateVoiceover pf be (trim t) config w = (r, w')"
    by (cases "generateVoiceover pf be (trim t) config w")
  obtain rs w'' where sa: "synthesizeAll pf be config (map trim ts) w' = (rs, w'')"
    by (cases "synthesizeAll pf be config (map trim ts) w'")
  have seg: "segments st = pre @ newSegment i t # ?rest"
    using Cons.prems(1) by simp
  have sid: "segId (newSegment i t) = i" and stx: "segText (newSegment i t) = trim t"
    by (simp_all add: newSegment_def)
  let ?fin = "finishedSegment i t r"
  have pre': "\<forall>s \<in> set (pre @ [?fin]). segId s < Suc i"
    using Cons.prems(2) by (auto simp: finishedSegment_def newSegment_def split: sum.splits)
  have u1: "updateSegment i (\<lambda>s. s\<lparr>segStatus := generating\<rparr>) (segments st)
      = pre @ (newSegment i t)\<lparr>segStatus := generating\<rparr> # ?rest"
    by (simp add: seg sid updateSegment_middle [OF Cons.prems(2)])
  have sa': "synthesizeAll pf be config (map trim (t # ts)) w = (r # rs, w'')"
    by (simp add: gv sa)
  show ?case
  proof (cases r)
    case (Inr buffer)
    have u2: "updateSegment i (\<lambda>s. s\<lparr>segAudio := Some buffer, segStatus := completed\<rparr>)
        (pre @ (newSegment i t)\<lparr>segStatus := generating\<rparr> # ?rest) = pre @ ?fin # ?rest"
      by (simp add: sid updateSegment_middle [OF Cons.prems(2)] finishedSegment_def Inr)
    have gv': "generateVoiceover pf be (segText (newSegment i t)) config w = (Inr buffer, w')"
      by (simp add: stx gv Inr)
    let ?st3 = "st\<lparr>segments := (pre @ [?fin]) @ ?rest,
                   audioBuffer := (if i = 0 then Some buffer else audioBuffer st)\<rparr>"
    have step: "scenesLoop pf be config i
        (map (\<lambda>(idx, t). newSegment idx t) (enumerate i (t # ts))) (st, w)
        = scenesLoop pf be config (Suc i) ?rest (?st3, w')"
      by (simp add: scenesLoop_completed [OF gv'] sid u1 u2 split del: if_split
          del: scenesLoop.simps)
    have sg: "segments ?st3 = (pre @ [?fin]) @ ?rest" by simp
    have "scenesLoop pf be config i
        (map (\<lambda>(idx, t). newSegment idx t) (enumerate i (t # ts))) (st, w)
        = (?st3\<lparr>segments := (pre @ [?fin]) @ finishedSegments (Suc i) ts rs\<rparr>, w'')"
      unfolding step Cons.IH [OF sg pre', of w'] by (simp add: sa)
    also have "\<dots> = (st\<lparr>segments := pre @ finishedSegments i (t # ts) (r # rs),
              audioBuffer := (if i = 0
                              then (case firstAudio (r # rs) of
                                      Some buffer \<Rightarrow> Some buffer
                                    | None \<Rightarrow> audioBuffer st)
                              else audioBuffer st)\<rparr>, w'')"
      by (cases "i = 0") (simp_all add: Inr firstAudio_def)
    finally show ?thesis
      by (simp only: sa' fst_conv snd_conv)
  next
    case (Inl e)
    have u2: "updateSegment i (\<lambda>s. s\<lparr>segStatus := error\<rparr>)
        (pre @ (newSegment i t)\<lparr>segStatus := generating\<rparr> # ?rest) = pre @ ?fin # ?rest"
      by (simp add: sid updateSegment_middle [OF Cons.prems(2)] finishedSegment_def Inl)
    have gv': "generateVoiceover pf be (segText (newSegment i t)) config w = (Inl e, w')"
      by (simp add: stx gv Inl)
    let ?st3 = "st\<lparr>segments := (pre @ [?fin]) @ ?rest\<rparr>"
    have step: "scenesLoop pf be config i
        (map (\<lambda>(idx, t). newSegment idx t) (enumerate i (t # ts))) (st, w)
        = scenesLoop pf be config (Suc i) ?rest (?st3, w')"
      by (simp add: scenesLoop_failed [OF gv'] sid u1 u2 del: scenesLoop.simps)
    have sg: "segments ?st3 = (pre @ [?fin]) @ ?rest" by simp
    have "scenesLoop pf be config i
        (map (\<lambda>(idx, t). newSegment idx t) (enumerate i (t # ts))) (st, w)
        = (?st3\<lparr>segments := (pre @ [?fin]) @ finishedSegments (Suc i) ts rs\<rparr>, w'')"
      unfolding step Cons.IH [OF sg pre', of w'] by (simp add: sa)
    also have "\<dots> = (st\<lparr>segments := pre @ finishedSegments i (t # ts) (r # rs),
              audioBuffer := (if i = 0
                              then (case firstAudio (r # rs) of
                                      Some buffer \<Rightarrow> Some buffer
                                    | None \<Rightarrow> audioBuffer st)
                              else audioBuffer st)\<rparr>, w'')"
      by (cases "i = 0") (simp_all add: Inl firstAudio_def)
    finally show ?thesis
      by (simp only: sa' fst_conv snd_conv)
  qed
qed

lemma length_synthesizeAll: "length (fst (synthesizeAll pf be config ts w)) = length ts"
  by (induction ts arbitrary: w) (simp_all add: split_beta)

lemma status_finishedSegments:
  "length rs = length ts \<Longrightarrow>
   map segStatus (finishedSegments i ts rs)
     = map (\<lambda>r. case r of Inr _ \<Rightarrow> completed | Inl _ \<Rightarrow> error) rs"
proof (induction i ts rs rule: finishedSegments.induct)
  case (1 i t ts r rs)
  then show ?case
    by (cases r) (simp_all add: finishedSegment_def newSegment_def)
qed simp_all

text \<open>
  Claim C9, amended. For a script with at least one non-blank line the batch calls
  \<^verbatim>\<open>generateVoiceover\<close> once for every segment, in order, a failure of one call not keeping
  the later ones from being made; every segment ends as completed with its audio or as error;
  and the displayed audio is the audio of segment 0 when its call succeeded, and none
  otherwise.
\<close>

theorem handleGenerateScenes_batch:
  fixes pf :: platform and be :: "'s backend" and w :: "'s world" and st :: app
    and script :: string and config :: VoiceConfig
  defines "pieces \<equiv> rawSegments script"
  defines "res \<equiv> synthesizeAll pf be config (map trim pieces) w"
  defines "fin \<equiv> handleGenerateScenes pf be script config (st, w)"
  assumes ne: "pieces \<noteq> []"
  shows "length (fst res) = length pieces
       \<and> segments (fst fin) = finishedSegments 0 pieces (fst res)
       \<and> map segStatus (segments (fst fin))
           = map (\<lambda>r. case r of Inr _ \<Rightarrow> completed | Inl _ \<Rightarrow> error) (fst res)
       \<and> snd fin = snd res
       \<and> audioBuffer (fst fin) = firstAudio (fst res)"
proof -
  let ?st0 = "st\<lparr>isGenerating := True, errorMessage := None, audioBuffer := None,
      activeVideoUrl := None\<rparr>"
  let ?segs = "map (\<lambda>(idx, t). newSegment idx t) (enumerate 0 pieces)"
  have len: "length (fst res) = length pieces"
    by (simp add: res_def length_synthesizeAll)
  have "segments (?st0\<lparr>segments := ?segs\<rparr>) = [] @ ?segs" by simp
  from scenesLoop_run [OF this, of pf be config w]
  have run: "scenesLoop pf be config 0 ?segs (?st0\<lparr>segments := ?segs\<rparr>, w)
      = (?st0\<lparr>segments := finishedSegments 0 pieces (fst res),
               audioBuffer := firstAudio (fst res)\<rparr>, snd res)"
    by (simp add: res_def split: option.splits)
  have fin: "fin = ((?st0\<lparr>segments := finishedSegments 0 pieces (fst res),
               audioBuffer := firstAudio (fst res)\<rparr>)\<lparr>isGenerating := False\<rparr>, snd res)"
    using ne
    by (simp add: fin_def handleGenerateScenes_def Let_def newSegments_def run
        pieces_def [symmetric])
  show ?thesis
    by (simp add: fin len status_finishedSegments)
qed

text \<open>
  Claim C9 as stated fails. On the two lines \<^verbatim>\<open>a\<close> and \<^verbatim>\<open>b\<close>, against a service that fails
  its first three requests and answers the fourth with audio, the first segment ends in error,
  the second is completed with audio, and no audio is displayed.
\<close>

theorem handleGenerateScenes_batch_counterexample:
  "audioBuffer (fst (handleGenerateScenes testPlatform failThenAnswer
       [CHR ''a'', CHR 0x0A, CHR ''b''] testConfig (app0, world0))) = None
   \<and> map segStatus (segments (fst (handleGenerateScenes testPlatform failThenAnswer
       [CHR ''a'', CHR 0x0A, CHR ''b''] testConfig (app0, world0)))) = [error, completed]
   \<and> map segAudio (segments (fst (handleGenerateScenes testPlatform failThenAnswer
       [CHR ''a'', CHR 0x0A, CHR ''b''] testConfig (app0, world0))))
       = [None, Some \<lparr>channelData = [[1 / 2]], sampleRate = 24000\<rparr>]"
  by code_simp

text \<open>
  C9 on the same run: after the three failed requests for the first segment the fourth request
  is the first prompt of the second segment.
\<close>

theorem handleGenerateScenes_batch_witness:
  "rawSegments [CHR ''a'', CHR 0x0A, CHR ''b''] \<noteq> []
   \<and> map segStatus (segments (fst (handleGenerateScenes testPlatform failThenAnswer
       [CHR ''a'', CHR 0x0A, CHR ''b''] testConfig (app0, world0)))) = [error, completed]
   \<and> requests (snd (handleGenerateScenes testPlatform failThenAnswer
       [CHR ''a'', CHR 0x0A, CHR ''b''] testConfig (app0, world0)))
       = map (request testConfig)
           [''Say with a Indian English accent and Friendly tone: a'',
            ''Read the following text aloud: a'', ''a'',
            ''Say with a Indian English accent and Friendly tone: b'']
   \<and> audioBuffer (fst (handleGenerateScenes testPlatform failThenAnswer
       [CHR ''a'', CHR 0x0A, CHR ''b''] testConfig (app0, world0))) = None"
proof -
  let ?script = "[CHR ''a'', CHR 0x0A, CHR ''b'']"
  let ?res = "synthesizeAll testPlatform failThenAnswer testConfig
      (map trim (rawSegments ?script)) world0"
  have ne: "rawSegments ?script \<noteq> []" by code_simp
  have r: "fst ?res = [Inl (Error ''third''),
      Inr \<lparr>channelData = [[1 / 2]], sampleRate = 24000\<rparr>]" by code_simp
  have q: "requests (snd ?res) = map (request testConfig)
           [''Say with a Indian English accent and Friendly tone: a'',
            ''Read the following text aloud: a'', ''a'',
            ''Say with a Indian English accent and Friendly tone: b'']" by code_simp
  let ?fin = "handleGenerateScenes testPlatform failThenAnswer ?script testConfig (app0, world0)"
  note batch = handleGenerateScenes_batch [OF ne, where pf = testPlatform
      and be = failThenAnswer and config = testConfig and w = world0 and st = app0]
  from batch have a: "map segStatus (segments (fst ?fin))
      = map (\<lambda>r. case r of Inr _ \<Rightarrow> completed | Inl _ \<Rightarrow> error) (fst ?res)"
    by blast
  from batch have b: "snd ?fin = snd ?res"
    by blast
  from batch have c: "audioBuffer (fst ?fin) = firstAudio (fst ?res)"
    by blast
  have "map segStatus (segments (fst ?fin)) = [error, completed]"
    unfolding a r by simp
  moreover have "requests (snd ?fin) = map (request testConfig)
           [''Say with a Indian English accent and Friendly tone: a'',
            ''Read the following text aloud: a'', ''a'',
            ''Say with a Indian English accent and Friendly tone: b'']"
    unfolding b by (rule q)
  moreover have "audioBuffer (fst ?fin) = None"
    unfolding c r by (simp add: firstAudio_def)
  ultimately show ?thesis
    using ne by blast
qed

end
